theory Spec2Isabelle
  imports Main
begin

section \<open>Field elements\<close>

text \<open>
  Signals of a circom circuit are elements of a prime field, kept here as their canonical
  representative, a natural number below the modulus \<open>p\<close>. The modulus is fixed by the
  compiler and the curve, not by the circuit files, so every definition takes it as its
  first argument.
\<close>

text \<open>
  Modelled from the spec: the field modulus itself is declared nowhere in the repository
  ("Field element: an integer modulo a large prime"); scripts/compile-circuits.js runs the
  setup for the curve bn128, whose scalar field has this 254-bit order.
\<close>
definition bn128 :: nat where
  "bn128 = 21888242871839275222246405745257275088548364400416034343698204186575808495617"

definition prime_nat :: "nat \<Rightarrow> bool" where
  "prime_nat p \<longleftrightarrow> 1 < p \<and> (\<forall>m. m dvd p \<longrightarrow> m = 1 \<or> m = p)"

text \<open>Trial division from \<open>d\<close> upwards, to decide primality of a small modulus.\<close>
function trial :: "nat \<Rightarrow> nat \<Rightarrow> bool" where
  "trial d p = (if p \<le> d then True else if d dvd p then False else trial (d + 1) p)"
  by pat_completeness auto
termination
  by (relation "measure (\<lambda>(d, p). p - d)") auto

declare trial.simps [simp del]

definition fadd :: "nat \<Rightarrow> nat \<Rightarrow> nat \<Rightarrow> nat" where
  "fadd p a b = (a + b) mod p"

definition fsub :: "nat \<Rightarrow> nat \<Rightarrow> nat \<Rightarrow> nat" where
  "fsub p a b = (a + (p - b mod p)) mod p"

definition fmul :: "nat \<Rightarrow> nat \<Rightarrow> nat \<Rightarrow> nat" where
  "fmul p a b = (a * b) mod p"

text \<open>What the scripts can throw: an \<open>assert\<close> of a template, a constraint
  \<open>===\<close> that the computed signals do not satisfy, an input of the wrong shape for the
  circuit, a build file that does not exist, a property read on \<open>undefined\<close>.\<close>
datatype gen_error =
  TemplateAssert | ConstraintUnsatisfiable | InputShape | FileNotFound | TypeError

section \<open>Num2Bits\<close>

text \<open>The quadratic constraint \<open>b * (b - 1) === 0\<close>.\<close>
definition is_bit :: "nat \<Rightarrow> nat \<Rightarrow> bool" where
  "is_bit p b \<longleftrightarrow> fmul p b (fsub p b 1) = 0"

text \<open>\<open>out[i] <-- (in >> i) & 1\<close> for \<open>i = 0 .. n-1\<close>.\<close>
definition Num2Bits_out :: "nat \<Rightarrow> nat \<Rightarrow> nat list" where
  "Num2Bits_out n x = map (\<lambda>i. (x div 2 ^ i) mod 2) [0..<n]"

text \<open>The loop's accumulator: \<open>lc1 += out[i] * e2; e2 = e2 + e2\<close>.\<close>
primrec Num2Bits_lc :: "nat \<Rightarrow> nat list \<Rightarrow> nat \<Rightarrow> nat \<Rightarrow> nat" where
  "Num2Bits_lc p [] lc1 e2 = lc1"
| "Num2Bits_lc p (b # bs) lc1 e2 = Num2Bits_lc p bs (fadd p lc1 (fmul p b e2)) (fadd p e2 e2)"

text \<open>The constraints of \<open>Num2Bits(n)\<close> on input \<open>x\<close> and output signals \<open>out\<close>.\<close>
definition Num2Bits_constraints :: "nat \<Rightarrow> nat \<Rightarrow> nat \<Rightarrow> nat list \<Rightarrow> bool" where
  "Num2Bits_constraints p n x out \<longleftrightarrow>
     length out = n \<and> list_all (\<lambda>b. b < p \<and> is_bit p b) out \<and> Num2Bits_lc p out 0 1 = x"

text \<open>Witness generation: compute the bits, then check the constraints on them.\<close>
definition Num2Bits :: "nat \<Rightarrow> nat \<Rightarrow> nat \<Rightarrow> gen_error + nat list" where
  "Num2Bits p n x =
     (let out = Num2Bits_out n x
      in if Num2Bits_constraints p n x out then Inr out else Inl ConstraintUnsatisfiable)"

section \<open>LessThan and GreaterEqThan\<close>

text \<open>\<open>n2b.in <== in[0] + (1<<n) - in[1]\<close>.\<close>
definition LessThan_in :: "nat \<Rightarrow> nat \<Rightarrow> nat \<Rightarrow> nat \<Rightarrow> nat" where
  "LessThan_in p n a b = fsub p (fadd p a (2 ^ n mod p)) b"

definition LessThan_constraints :: "nat \<Rightarrow> nat \<Rightarrow> nat \<Rightarrow> nat \<Rightarrow> nat list \<Rightarrow> nat \<Rightarrow> bool" where
  "LessThan_constraints p n a b bits out \<longleftrightarrow>
     n \<le> 252 \<and> Num2Bits_constraints p (n + 1) (LessThan_in p n a b) bits \<and>
     out = fsub p 1 (bits ! n)"

definition LessThan :: "nat \<Rightarrow> nat \<Rightarrow> nat \<Rightarrow> nat \<Rightarrow> gen_error + nat" where
  "LessThan p n a b =
     (if \<not> n \<le> 252 then Inl TemplateAssert
      else case Num2Bits p (n + 1) (LessThan_in p n a b) of
             Inl e \<Rightarrow> Inl e
           | Inr bits \<Rightarrow> Inr (fsub p 1 (bits ! n)))"

definition GreaterEqThan_constraints :: "nat \<Rightarrow> nat \<Rightarrow> nat \<Rightarrow> nat \<Rightarrow> nat list \<Rightarrow> nat \<Rightarrow> bool" where
  "GreaterEqThan_constraints p n a b bits out \<longleftrightarrow>
     (\<exists>lt. LessThan_constraints p n a b bits lt \<and> out = fsub p 1 lt)"

definition GreaterEqThan :: "nat \<Rightarrow> nat \<Rightarrow> nat \<Rightarrow> nat \<Rightarrow> gen_error + nat" where
  "GreaterEqThan p n a b =
     (case LessThan p n a b of Inl e \<Rightarrow> Inl e | Inr lt \<Rightarrow> Inr (fsub p 1 lt))"

section \<open>The three circuits\<close>

text \<open>A witness, as far as the scripts see it: the public signals (outputs first, then the
  public inputs, the order of snarkjs) and the remaining, private signals.\<close>
record witness =
  public_signals :: "nat list"
  private_signals :: "nat list"

subsection \<open>ComputeThreshold\<close>

definition ComputeThreshold_constraints ::
  "nat \<Rightarrow> nat \<Rightarrow> nat \<Rightarrow> nat \<Rightarrow> nat list \<Rightarrow> nat \<Rightarrow> bool" where
  "ComputeThreshold_constraints p privateCompute threshold difference bits valid \<longleftrightarrow>
     difference = fsub p threshold privateCompute \<and>
     LessThan_constraints p 252 privateCompute threshold bits valid \<and>
     valid = 1"

definition ComputeThreshold :: "nat \<Rightarrow> nat \<Rightarrow> nat \<Rightarrow> gen_error + witness" where
  "ComputeThreshold p privateCompute threshold =
     (let difference = fsub p threshold privateCompute
      in case LessThan p 252 privateCompute threshold of
           Inl e \<Rightarrow> Inl e
         | Inr valid \<Rightarrow>
             if valid = 1
             then Inr \<lparr>public_signals = [valid, threshold],
                       private_signals = privateCompute # difference #
                         Num2Bits_out 253 (LessThan_in p 252 privateCompute threshold)\<rparr>
             else Inl ConstraintUnsatisfiable)"

subsection \<open>EvaluationAttestation and PolicyCompliance\<close>

text \<open>\<open>completedSum[i] <== completedSum[i-1] + evaluationFlags[i]\<close>, from the sum so far.\<close>
primrec running_sums :: "nat \<Rightarrow> nat \<Rightarrow> nat list \<Rightarrow> nat list" where
  "running_sums p s [] = []"
| "running_sums p s (f # fs) = fadd p s f # running_sums p (fadd p s f) fs"

text \<open>\<open>completedSum[0] <== evaluationFlags[0]\<close>, then the loop from 1.\<close>
definition completedSum :: "nat \<Rightarrow> nat list \<Rightarrow> nat list" where
  "completedSum p evaluationFlags =
     (case evaluationFlags of [] \<Rightarrow> [] | f # fs \<Rightarrow> f # running_sums p f fs)"

definition EvaluationAttestation_constraints ::
  "nat \<Rightarrow> nat \<Rightarrow> nat list \<Rightarrow> nat \<Rightarrow> nat list \<Rightarrow> nat \<Rightarrow> bool" where
  "EvaluationAttestation_constraints p N evaluationFlags requiredCount bits valid \<longleftrightarrow>
     0 < N \<and> length evaluationFlags = N \<and>
     list_all (is_bit p) evaluationFlags \<and>
     GreaterEqThan_constraints p 8 (completedSum p evaluationFlags ! (N - 1)) requiredCount
       bits valid \<and>
     valid = 1"

definition EvaluationAttestation ::
  "nat \<Rightarrow> nat \<Rightarrow> nat list \<Rightarrow> nat \<Rightarrow> gen_error + witness" where
  "EvaluationAttestation p N evaluationFlags requiredCount =
     (if N = 0 \<or> length evaluationFlags \<noteq> N then Inl InputShape
      else if \<not> list_all (is_bit p) evaluationFlags then Inl ConstraintUnsatisfiable
      else case GreaterEqThan p 8 (completedSum p evaluationFlags ! (N - 1)) requiredCount of
             Inl e \<Rightarrow> Inl e
           | Inr valid \<Rightarrow>
               if valid = 1
               then Inr \<lparr>public_signals = [valid, requiredCount],
                         private_signals = evaluationFlags @ completedSum p evaluationFlags\<rparr>
               else Inl ConstraintUnsatisfiable)"

text \<open>The policy circuit has its own copy of the same template, with its own names.\<close>
definition itemSum :: "nat \<Rightarrow> nat list \<Rightarrow> nat list" where
  "itemSum p policyItems =
     (case policyItems of [] \<Rightarrow> [] | f # fs \<Rightarrow> f # running_sums p f fs)"

definition PolicyCompliance_constraints ::
  "nat \<Rightarrow> nat \<Rightarrow> nat list \<Rightarrow> nat \<Rightarrow> nat list \<Rightarrow> nat \<Rightarrow> bool" where
  "PolicyCompliance_constraints p N policyItems minRequired bits valid \<longleftrightarrow>
     0 < N \<and> length policyItems = N \<and>
     list_all (is_bit p) policyItems \<and>
     GreaterEqThan_constraints p 8 (itemSum p policyItems ! (N - 1)) minRequired bits valid \<and>
     valid = 1"

definition PolicyCompliance ::
  "nat \<Rightarrow> nat \<Rightarrow> nat list \<Rightarrow> nat \<Rightarrow> gen_error + witness" where
  "PolicyCompliance p N policyItems minRequired =
     (if N = 0 \<or> length policyItems \<noteq> N then Inl InputShape
      else if \<not> list_all (is_bit p) policyItems then Inl ConstraintUnsatisfiable
      else case GreaterEqThan p 8 (itemSum p policyItems ! (N - 1)) minRequired of
             Inl e \<Rightarrow> Inl e
           | Inr valid \<Rightarrow>
               if valid = 1
               then Inr \<lparr>public_signals = [valid, minRequired],
                         private_signals = policyItems @ itemSum p policyItems\<rparr>
               else Inl ConstraintUnsatisfiable)"

section \<open>The scripts\<close>

subsection \<open>Values exchanged with snarkjs\<close>

text \<open>Public signals come back from snarkjs as decimal strings.\<close>
definition digit_char :: "nat \<Rightarrow> char" where
  "digit_char d = ''0123456789'' ! d"

function dec :: "nat \<Rightarrow> string" where
  "dec n = (if n < 10 then [digit_char n] else dec (n div 10) @ [digit_char (n mod 10)])"
  by pat_completeness auto
termination
  by (relation "measure (\<lambda>n. n)") auto

declare dec.simps [simp del]

text \<open>The input object of a circuit, its decimal strings read as numbers.\<close>
datatype circuit_input =
  ComputeThresholdInput nat nat
| EvaluationAttestationInput "nat list" nat
| PolicyComplianceInput "nat list" nat

text \<open>A proof with its public signals, the object \<open>{ proof, publicSignals }\<close>.\<close>
record 'pf proof_result =
  proof_obj :: 'pf
  publicSignals :: "string list"

text \<open>
  The proving engine is not part of the repository: \<open>groth16.fullProve\<close> and
  \<open>groth16.verify\<close> of snarkjs are parameters, as are the keys that
  scripts/compile-circuits.js leaves under build/, looked up by circuit name.
\<close>
record ('zk, 'vk, 'pf) groth16 =
  groth16_prove :: "'zk \<Rightarrow> witness \<Rightarrow> 'pf"
  groth16_verify :: "'vk \<Rightarrow> string list \<Rightarrow> 'pf \<Rightarrow> bool"

record ('zk, 'vk) build =
  zkey :: "string \<rightharpoonup> 'zk"
  verification_key :: "string \<rightharpoonup> 'vk"

text \<open>The witness calculators compiled from the three main components,
  \<open>ComputeThreshold()\<close>, \<open>EvaluationAttestation(5)\<close> and \<open>PolicyCompliance(8)\<close>; the
  calculator reduces every input modulo the field order first.\<close>
definition calculateWitness :: "nat \<Rightarrow> string \<Rightarrow> circuit_input \<Rightarrow> gen_error + witness" where
  "calculateWitness p circuitName input =
     (if circuitName = ''compute_threshold'' then
        (case input of
           ComputeThresholdInput privateCompute threshold \<Rightarrow>
             ComputeThreshold p (privateCompute mod p) (threshold mod p)
         | _ \<Rightarrow> Inl InputShape)
      else if circuitName = ''evaluation_attestation'' then
        (case input of
           EvaluationAttestationInput evaluationFlags requiredCount \<Rightarrow>
             EvaluationAttestation p 5 (map (\<lambda>f. f mod p) evaluationFlags) (requiredCount mod p)
         | _ \<Rightarrow> Inl InputShape)
      else if circuitName = ''policy_compliance'' then
        (case input of
           PolicyComplianceInput policyItems minRequired \<Rightarrow>
             PolicyCompliance p 8 (map (\<lambda>f. f mod p) policyItems) (minRequired mod p)
         | _ \<Rightarrow> Inl InputShape)
      else Inl FileNotFound)"

text \<open>\<open>groth16.fullProve(input, wasmPath, zkeyPath)\<close>: the witness is calculated first,
  then the proving key is read and the proof computed.\<close>
definition fullProve ::
  "('zk, 'vk, 'pf) groth16 \<Rightarrow> ('zk, 'vk) build \<Rightarrow> nat \<Rightarrow> string \<Rightarrow> circuit_input
     \<Rightarrow> gen_error + 'pf proof_result" where
  "fullProve E B p circuitName input =
     (case calculateWitness p circuitName input of
        Inl e \<Rightarrow> Inl e
      | Inr w \<Rightarrow>
          (case zkey B circuitName of
             None \<Rightarrow> Inl FileNotFound
           | Some zk \<Rightarrow> Inr \<lparr>proof_obj = groth16_prove E zk w,
                               publicSignals = map dec (public_signals w)\<rparr>))"

subsection \<open>Persisted files\<close>

datatype 'pf json =
  JStr string
| JProof 'pf
| JArr "'pf json list"
| JObj "(string \<times> 'pf json) list"

datatype 'pf node = Dir | File "'pf json"

type_synonym 'pf files = "string \<rightharpoonup> 'pf node"

definition ensureDataDir :: "'pf files \<Rightarrow> 'pf files" where
  "ensureDataDir fs = (if fs ''data'' = None then fs(''data'' \<mapsto> Dir) else fs)"

definition writeFileSync :: "string \<Rightarrow> 'pf json \<Rightarrow> 'pf files \<Rightarrow> 'pf files" where
  "writeFileSync path content fs = fs(path \<mapsto> File content)"

definition proofPath :: "string \<Rightarrow> string" where
  "proofPath circuitName = ''data/'' @ circuitName @ ''_proof.json''"

definition publicPath :: "string \<Rightarrow> string" where
  "publicPath circuitName = ''data/'' @ circuitName @ ''_public.json''"

subsection \<open>scripts/generate-proof.js\<close>

definition generateProof ::
  "('zk, 'vk, 'pf) groth16 \<Rightarrow> ('zk, 'vk) build \<Rightarrow> nat \<Rightarrow> string \<Rightarrow> circuit_input
     \<Rightarrow> 'pf files \<Rightarrow> (gen_error + 'pf proof_result) \<times> 'pf files" where
  "generateProof E B p circuitName input fs =
     (case fullProve E B p circuitName input of
        Inl e \<Rightarrow> (Inl e, fs)
      | Inr r \<Rightarrow>
          (Inr r,
           writeFileSync (publicPath circuitName) (JArr (map JStr (publicSignals r)))
             (writeFileSync (proofPath circuitName) (JProof (proof_obj r)) (ensureDataDir fs))))"

definition generateComputeThresholdProof ::
  "('zk, 'vk, 'pf) groth16 \<Rightarrow> ('zk, 'vk) build \<Rightarrow> nat \<Rightarrow> nat \<Rightarrow> nat
     \<Rightarrow> 'pf files \<Rightarrow> (gen_error + 'pf proof_result) \<times> 'pf files" where
  "generateComputeThresholdProof E B p privateCompute threshold fs =
     generateProof E B p ''compute_threshold'' (ComputeThresholdInput privateCompute threshold) fs"

definition generateEvaluationProof ::
  "('zk, 'vk, 'pf) groth16 \<Rightarrow> ('zk, 'vk) build \<Rightarrow> nat \<Rightarrow> nat list \<Rightarrow> nat
     \<Rightarrow> 'pf files \<Rightarrow> (gen_error + 'pf proof_result) \<times> 'pf files" where
  "generateEvaluationProof E B p evaluationFlags requiredCount fs =
     generateProof E B p ''evaluation_attestation''
       (EvaluationAttestationInput evaluationFlags requiredCount) fs"

definition generatePolicyComplianceProof ::
  "('zk, 'vk, 'pf) groth16 \<Rightarrow> ('zk, 'vk) build \<Rightarrow> nat \<Rightarrow> nat list \<Rightarrow> nat
     \<Rightarrow> 'pf files \<Rightarrow> (gen_error + 'pf proof_result) \<times> 'pf files" where
  "generatePolicyComplianceProof E B p policyItems minRequired fs =
     generateProof E B p ''policy_compliance'' (PolicyComplianceInput policyItems minRequired) fs"

subsection \<open>scripts/demo.js\<close>

definition fullProveAndPersist ::
  "('zk, 'vk, 'pf) groth16 \<Rightarrow> ('zk, 'vk) build \<Rightarrow> nat \<Rightarrow> string \<Rightarrow> circuit_input
     \<Rightarrow> 'pf files \<Rightarrow> (gen_error + 'pf proof_result) \<times> 'pf files" where
  "fullProveAndPersist E B p circuitName input fs =
     (case fullProve E B p circuitName input of
        Inl e \<Rightarrow> (Inl e, fs)
      | Inr r \<Rightarrow>
          (Inr r,
           writeFileSync (publicPath circuitName) (JArr (map JStr (publicSignals r)))
             (writeFileSync (proofPath circuitName) (JProof (proof_obj r)) (ensureDataDir fs))))"

definition verify ::
  "('zk, 'vk, 'pf) groth16 \<Rightarrow> ('zk, 'vk) build \<Rightarrow> string \<Rightarrow> 'pf \<Rightarrow> string list
     \<Rightarrow> gen_error + bool" where
  "verify E B circuitName pf publicSignals' =
     (case verification_key B circuitName of
        None \<Rightarrow> Inl FileNotFound
      | Some vKey \<Rightarrow> Inr (groth16_verify E vKey publicSignals' pf))"

subsection \<open>scripts/composite-proof.js\<close>

record 'pf proofs =
  compute :: "'pf proof_result"
  evaluation :: "'pf proof_result"
  policy :: "'pf proof_result"

definition member_json :: "'pf proof_result \<Rightarrow> string \<Rightarrow> 'pf json" where
  "member_json r claim =
     JObj [(''proof'', JProof (proof_obj r)),
           (''publicSignals'', JArr (map JStr (publicSignals r))),
           (''claim'', JStr claim)]"

text \<open>\<open>composeProofs\<close>: the composite object, also saved as data/composite_proof.json;
  \<open>now\<close> is \<open>new Date().toISOString()\<close>.\<close>
definition compositeProof :: "string \<Rightarrow> 'pf proofs \<Rightarrow> 'pf json" where
  "compositeProof now ps =
     JObj [(''version'', JStr ''1.0''),
           (''timestamp'', JStr now),
           (''proofs'',
              JObj [(''compute_threshold'',
                       member_json (compute ps) ''Training compute below regulatory threshold''),
                    (''evaluation_attestation'',
                       member_json (evaluation ps) ''All required safety evaluations completed''),
                    (''policy_compliance'',
                       member_json (policy ps) ''Responsible Scaling Policy requirements met'')]),
           (''metadata'',
              JObj [(''submitter'', JStr ''AI Lab Example Inc.''),
                    (''framework'', JStr ''EU AI Act + RSP''),
                    (''compositionMethod'', JStr ''bundled_verification'')])]"

definition composeProofs :: "string \<Rightarrow> 'pf proofs \<Rightarrow> 'pf files \<Rightarrow> 'pf json \<times> 'pf files" where
  "composeProofs now ps fs =
     (compositeProof now ps,
      writeFileSync ''data/composite_proof.json'' (compositeProof now ps) (ensureDataDir fs))"

text \<open>Property access on a JSON value; \<open>None\<close> is JavaScript's \<open>undefined\<close>.\<close>
fun field :: "string \<Rightarrow> 'pf json \<Rightarrow> 'pf json option" where
  "field k (JObj kvs) = map_of kvs k"
| "field k _ = None"

fun keys :: "'pf json \<Rightarrow> string list" where
  "keys (JObj kvs) = map fst kvs"
| "keys _ = []"

fun as_string :: "'pf json \<Rightarrow> string option" where
  "as_string (JStr s) = Some s"
| "as_string _ = None"

fun as_strings :: "'pf json \<Rightarrow> string list option" where
  "as_strings (JArr js) =
     (if list_all (\<lambda>j. as_string j \<noteq> None) js then Some (map (\<lambda>j. the (as_string j)) js)
      else None)"
| "as_strings _ = None"

fun as_proof :: "'pf json \<Rightarrow> 'pf option" where
  "as_proof (JProof pf) = Some pf"
| "as_proof _ = None"

text \<open>\<open>proofData = compositeProof.proofs[circuit]\<close> with its \<open>publicSignals\<close> and
  \<open>proof\<close>.\<close>
definition proofData :: "'pf json \<Rightarrow> string \<Rightarrow> (string list \<times> 'pf) option" where
  "proofData composite circuit =
     (case field ''proofs'' composite of
        None \<Rightarrow> None
      | Some ps \<Rightarrow>
          (case field circuit ps of
             None \<Rightarrow> None
           | Some m \<Rightarrow>
               (case (field ''publicSignals'' m, field ''proof'' m) of
                  (Some s, Some q) \<Rightarrow>
                    (case (as_strings s, as_proof q) of
                       (Some sigs, Some pf) \<Rightarrow> Some (sigs, pf)
                     | _ \<Rightarrow> None)
                | _ \<Rightarrow> None)))"

text \<open>The loop of \<open>verifyCompositeProof\<close> over the circuit names.\<close>
fun verify_each ::
  "('zk, 'vk, 'pf) groth16 \<Rightarrow> ('zk, 'vk) build \<Rightarrow> 'pf json \<Rightarrow> string list
     \<Rightarrow> gen_error + (string \<times> bool) list" where
  "verify_each E B composite [] = Inr []"
| "verify_each E B composite (circuit # rest) =
     (case verification_key B circuit of
        None \<Rightarrow> Inl FileNotFound
      | Some vKey \<Rightarrow>
          (case proofData composite circuit of
             None \<Rightarrow> Inl TypeError
           | Some (sigs, pf) \<Rightarrow>
               (case verify_each E B composite rest of
                  Inl e \<Rightarrow> Inl e
                | Inr results \<Rightarrow> Inr ((circuit, groth16_verify E vKey sigs pf) # results))))"

definition circuits :: "string list" where
  "circuits = [''compute_threshold'', ''evaluation_attestation'', ''policy_compliance'']"

definition verifyCompositeProof ::
  "('zk, 'vk, 'pf) groth16 \<Rightarrow> ('zk, 'vk) build \<Rightarrow> 'pf json
     \<Rightarrow> gen_error + (string \<times> bool) list" where
  "verifyCompositeProof E B composite = verify_each E B composite circuits"

text \<open>\<open>Object.values(results).every(v => v)\<close> in \<open>main\<close>.\<close>
definition allValid :: "(string \<times> bool) list \<Rightarrow> bool" where
  "allValid results = list_all snd results"

subsection \<open>A stand-in engine\<close>

text \<open>An engine and a build directory for concrete runs of the scripts: a proof names its
  key and repeats the public signals, and verification compares them.\<close>
definition echo_engine :: "(string, string, string list) groth16" where
  "echo_engine =
     \<lparr>groth16_prove = (\<lambda>zk w. zk # map dec (public_signals w)),
      groth16_verify = (\<lambda>vk sigs pf. pf = vk # sigs)\<rparr>"

definition echo_build :: "(string, string) build" where
  "echo_build =
     \<lparr>zkey = (\<lambda>c. if c \<in> set circuits then Some c else None),
      verification_key = (\<lambda>c. if c \<in> set circuits then Some c else None)\<rparr>"

subsection \<open>The composite schema as the specification words it\<close>

text \<open>
  \<open>{version, timestamp, submitter, framework, claims: {claimId -> {proof,
  publicInputVector, label}}}\<close>: the five top-level properties, and under \<open>claims\<close> one
  object per claim with exactly these three properties.
\<close>
definition spec_composite_schema :: "'pf json \<Rightarrow> bool" where
  "spec_composite_schema j \<longleftrightarrow>
     set (keys j) = {''version'', ''timestamp'', ''submitter'', ''framework'', ''claims''} \<and>
     (case field ''claims'' j of
        None \<Rightarrow> False
      | Some cs \<Rightarrow>
          list_all (\<lambda>c. case field c cs of
                           None \<Rightarrow> False
                         | Some m \<Rightarrow> set (keys m) = {''proof'', ''publicInputVector'', ''label''})
            (keys cs))"

section \<open>Basic facts\<close>

text \<open>The integer a list of bits stands for, least significant bit first.\<close>
primrec bits_val :: "nat list \<Rightarrow> nat" where
  "bits_val [] = 0"
| "bits_val (b # bs) = b + 2 * bits_val bs"

lemma Num2Bits_lc_mod:
  "Num2Bits_lc p bs lc e mod p = (lc + e * bits_val bs) mod p"
proof (induction bs arbitrary: lc e)
  case Nil
  show ?case by simp
next
  case (Cons b bs)
  define X where "X = lc + b * e"
  define Y where "Y = e + e"
  define Z where "Z = bits_val bs"
  have "Num2Bits_lc p (b # bs) lc e mod p = (X mod p + (Y mod p) * Z) mod p"
    by (simp add: Cons.IH fadd_def fmul_def X_def Y_def Z_def mod_add_right_eq)
  also have "\<dots> = (X + (Y mod p) * Z) mod p"
    by (rule mod_add_left_eq)
  also have "\<dots> = (X + ((Y mod p) * Z) mod p) mod p"
    by (rule mod_add_right_eq [symmetric])
  also have "((Y mod p) * Z) mod p = (Y * Z) mod p"
    by (rule mod_mult_left_eq)
  also have "(X + (Y * Z) mod p) mod p = (X + Y * Z) mod p"
    by (rule mod_add_right_eq)
  also have "X + Y * Z = lc + e * bits_val (b # bs)"
    by (simp add: X_def Y_def Z_def algebra_simps)
  finally show ?case .
qed

lemma Num2Bits_lc_less:
  "0 < p \<Longrightarrow> lc < p \<Longrightarrow> Num2Bits_lc p bs lc e < p"
  by (induction bs arbitrary: lc e) (simp_all add: fadd_def)

lemma Num2Bits_lc_val:
  assumes "0 < p"
  shows "Num2Bits_lc p bs 0 1 = bits_val bs mod p"
proof -
  have "Num2Bits_lc p bs 0 1 < p" using assms by (rule Num2Bits_lc_less) (rule assms)
  then have "Num2Bits_lc p bs 0 1 = Num2Bits_lc p bs 0 1 mod p" by simp
  also have "\<dots> = bits_val bs mod p" by (simp add: Num2Bits_lc_mod)
  finally show ?thesis .
qed

lemma bits_val_Num2Bits_out: "bits_val (Num2Bits_out n x) = x mod 2 ^ n"
proof (induction n arbitrary: x)
  case 0
  show ?case by (simp add: Num2Bits_out_def)
next
  case (Suc n)
  have "Num2Bits_out (Suc n) x = x mod 2 # Num2Bits_out n (x div 2)"
    by (simp add: Num2Bits_out_def upt_conv_Cons map_Suc_upt [symmetric] div_mult2_eq
             del: upt_Suc)
  then have "bits_val (Num2Bits_out (Suc n) x) = x mod 2 + 2 * ((x div 2) mod 2 ^ n)"
    by (simp add: Suc.IH)
  also have "\<dots> = x mod 2 ^ Suc n"
    by (simp add: mod_mult2_eq)
  finally show ?case .
qed

lemma bits_val_bound:
  "list_all (\<lambda>b. b \<le> 1) bs \<Longrightarrow> bits_val bs < 2 ^ length bs"
  by (induction bs) auto

lemma bits_val_nth:
  "list_all (\<lambda>b. b \<le> 1) bs \<Longrightarrow> i < length bs \<Longrightarrow> bs ! i = (bits_val bs div 2 ^ i) mod 2"
proof (induction bs arbitrary: i)
  case Nil
  then show ?case by simp
next
  case (Cons b bs)
  show ?case
  proof (cases i)
    case 0
    then show ?thesis using Cons.prems by auto
  next
    case (Suc j)
    have "(b + 2 * bits_val bs) div 2 = bits_val bs" using Cons.prems by auto
    then have "(bits_val (b # bs) div 2 ^ i) = bits_val bs div 2 ^ j"
      using Suc by (simp add: div_mult2_eq)
    then show ?thesis using Cons Suc by simp
  qed
qed

section \<open>Primes and the quadratic bit constraint\<close>

lemma prime_nat_dvd_mult:
  assumes "prime_nat p" "p dvd a * b"
  shows "p dvd a \<or> p dvd b"
proof (cases "p dvd a")
  case True
  then show ?thesis by simp
next
  case False
  have "gcd p a dvd p" by simp
  then have "gcd p a = 1 \<or> gcd p a = p" using assms(1) by (simp add: prime_nat_def)
  moreover have "gcd p a \<noteq> p" using False by (metis gcd_dvd2)
  ultimately have "coprime p a" by (simp add: coprime_iff_gcd_eq_1)
  then have "p dvd b" using assms(2) by (simp add: coprime_dvd_mult_right_iff)
  then show ?thesis by simp
qed

lemma prime_nat_code:
  "prime_nat p \<longleftrightarrow> 1 < p \<and> (\<forall>m\<in>{2..<p}. \<not> m dvd p)"
proof
  assume "prime_nat p"
  then show "1 < p \<and> (\<forall>m\<in>{2..<p}. \<not> m dvd p)"
    by (auto simp add: prime_nat_def)
next
  assume h: "1 < p \<and> (\<forall>m\<in>{2..<p}. \<not> m dvd p)"
  have "m = 1 \<or> m = p" if "m dvd p" for m
  proof -
    have "m \<le> p" using that h by (simp add: dvd_imp_le)
    moreover have "m \<noteq> 0" using that h by (cases "m = 0") simp_all
    moreover have "\<not> (2 \<le> m \<and> m < p)" using that h by auto
    ultimately show ?thesis by arith
  qed
  then show "prime_nat p" using h by (simp add: prime_nat_def)
qed

lemma trial_sound:
  "trial d p \<Longrightarrow> d \<le> m \<Longrightarrow> m < p \<Longrightarrow> \<not> m dvd p"
proof (induction d p rule: trial.induct)
  case (1 d p)
  have "d < p" using "1.prems" by simp
  then have nd: "\<not> d dvd p" and rest: "trial (d + 1) p"
    using "1.prems"(1) by (simp_all add: trial.simps [of d p] split: if_splits)
  show ?case
  proof (cases "m = d")
    case True
    then show ?thesis using nd by simp
  next
    case False
    then have "d + 1 \<le> m" using "1.prems"(2) by simp
    then show ?thesis using "1.IH" \<open>d < p\<close> nd rest "1.prems"(3) by simp
  qed
qed

lemma prime_nat_trial: "1 < p \<Longrightarrow> trial 2 p \<Longrightarrow> prime_nat p"
  using trial_sound [of 2 p] by (simp add: prime_nat_code)

lemma fsub_one:
  assumes "1 < p" "b < p"
  shows "fsub p b 1 = (if b = 0 then p - 1 else b - 1)"
proof (cases "b = 0")
  case True
  then show ?thesis using assms by (simp add: fsub_def)
next
  case False
  then have e: "b + (p - 1) = (b - 1) + p" using assms by simp
  have "(b + (p - 1)) mod p = ((b - 1) + p) mod p" by (simp only: e)
  also have "\<dots> = (b - 1) mod p" by simp
  also have "\<dots> = b - 1" using assms by simp
  finally have "(b + (p - 1)) mod p = b - 1" .
  then show ?thesis using False assms by (simp add: fsub_def)
qed

lemma is_bit_0: "1 < p \<Longrightarrow> is_bit p 0"
  by (simp add: is_bit_def fmul_def)

lemma is_bit_1: "1 < p \<Longrightarrow> is_bit p 1"
  by (simp add: is_bit_def fmul_def fsub_def)

lemma is_bit_le1: "1 < p \<Longrightarrow> b \<le> 1 \<Longrightarrow> is_bit p b"
  using is_bit_0 [of p] is_bit_1 [of p] by (cases "b = 0") (simp_all add: le_Suc_eq)

lemma is_bit_prime:
  assumes "prime_nat p" "b < p" "is_bit p b"
  shows "b \<le> 1"
proof (rule ccontr)
  assume "\<not> b \<le> 1"
  then have b: "2 \<le> b" by simp
  have p: "1 < p" using assms(1) by (simp add: prime_nat_def)
  have "fsub p b 1 = b - 1" using fsub_one [OF p assms(2)] b by simp
  then have "p dvd b * (b - 1)" using assms(3) by (simp add: is_bit_def fmul_def mod_eq_0_iff_dvd)
  then have "p dvd b \<or> p dvd (b - 1)" by (rule prime_nat_dvd_mult [OF assms(1)])
  moreover have "\<not> p dvd b" using b assms(2) by (simp add: nat_dvd_not_less)
  moreover have "\<not> p dvd (b - 1)" using b assms(2) by (simp add: nat_dvd_not_less)
  ultimately show False by simp
qed

section \<open>Properties of Num2Bits\<close>

lemma Num2Bits_out_length: "length (Num2Bits_out n x) = n"
  by (simp add: Num2Bits_out_def)

lemma Num2Bits_out_le1: "list_all (\<lambda>b. b \<le> 1) (Num2Bits_out n x)"
proof -
  have "y mod 2 \<le> 1" for y :: nat by arith
  then show ?thesis by (simp add: Num2Bits_out_def list_all_iff)
qed

lemma Num2Bits_out_nth: "i < n \<Longrightarrow> Num2Bits_out n x ! i = (x div 2 ^ i) mod 2"
  by (simp add: Num2Bits_out_def)

lemma Num2Bits_out_constraints:
  assumes "1 < p" "x < p" "x < 2 ^ n"
  shows "Num2Bits_constraints p n x (Num2Bits_out n x)"
proof -
  have "list_all (\<lambda>b. b < p \<and> is_bit p b) (Num2Bits_out n x)"
  proof -
    have "b < p \<and> is_bit p b" if "b \<in> set (Num2Bits_out n x)" for b
    proof -
      have "b \<le> 1" using that Num2Bits_out_le1 [of n x] by (simp add: list_all_iff)
      then show ?thesis using assms(1) is_bit_le1 [of p b] by simp
    qed
    then show ?thesis by (simp add: list_all_iff)
  qed
  moreover have "Num2Bits_lc p (Num2Bits_out n x) 0 1 = x"
    using assms Num2Bits_lc_val [of p "Num2Bits_out n x"] by (simp add: bits_val_Num2Bits_out)
  ultimately show ?thesis by (simp add: Num2Bits_constraints_def Num2Bits_out_length)
qed

lemma Num2Bits_constraints_le1:
  assumes "prime_nat p" "Num2Bits_constraints p n x out"
  shows "list_all (\<lambda>b. b \<le> 1) out"
proof -
  have "b \<le> 1" if "b \<in> set out" for b
  proof -
    have "b < p \<and> is_bit p b"
      using that assms(2) by (simp add: Num2Bits_constraints_def list_all_iff)
    then show ?thesis using is_bit_prime [OF assms(1)] by blast
  qed
  then show ?thesis by (simp add: list_all_iff)
qed

lemma Num2Bits_constraints_val:
  assumes "prime_nat p" "Num2Bits_constraints p n x out"
  shows "x = bits_val out mod p" "bits_val out < 2 ^ n"
proof -
  have p: "0 < p" using assms(1) by (simp add: prime_nat_def)
  show "x = bits_val out mod p"
    using assms(2) Num2Bits_lc_val [OF p, of out] by (simp add: Num2Bits_constraints_def)
  have "length out = n" using assms(2) by (simp add: Num2Bits_constraints_def)
  then show "bits_val out < 2 ^ n"
    using bits_val_bound [OF Num2Bits_constraints_le1 [OF assms]] by simp
qed

lemma Num2Bits_constraints_bound:
  assumes "prime_nat p" "Num2Bits_constraints p n x out"
  shows "x < 2 ^ n"
proof -
  have "x \<le> bits_val out" using Num2Bits_constraints_val(1) [OF assms] by simp
  then show ?thesis using Num2Bits_constraints_val(2) [OF assms] by simp
qed

lemma Num2Bits_constraints_unique:
  assumes "prime_nat p" "2 ^ n \<le> p" "Num2Bits_constraints p n x out"
  shows "out = Num2Bits_out n x"
proof (rule nth_equalityI)
  have len: "length out = n" using assms(3) by (simp add: Num2Bits_constraints_def)
  then show "length out = length (Num2Bits_out n x)" by (simp add: Num2Bits_out_length)
  have "bits_val out < p"
    using Num2Bits_constraints_val(2) [OF assms(1,3)] assms(2) by simp
  then have v: "bits_val out = x" using Num2Bits_constraints_val(1) [OF assms(1,3)] by simp
  fix i assume "i < length out"
  then show "out ! i = Num2Bits_out n x ! i"
    using bits_val_nth [OF Num2Bits_constraints_le1 [OF assms(1,3)], of i] len v
    by (simp add: Num2Bits_out_nth)
qed

lemma Num2Bits_eq:
  assumes "prime_nat p" "x < p"
  shows "Num2Bits p n x = (if x < 2 ^ n then Inr (Num2Bits_out n x) else Inl ConstraintUnsatisfiable)"
proof (cases "x < 2 ^ n")
  case True
  have "1 < p" using assms(1) by (simp add: prime_nat_def)
  then show ?thesis using True Num2Bits_out_constraints [of p x n] assms(2)
    by (simp add: Num2Bits_def)
next
  case False
  then have "\<not> Num2Bits_constraints p n x (Num2Bits_out n x)"
    using Num2Bits_constraints_bound [OF assms(1)] by blast
  then show ?thesis using False by (simp add: Num2Bits_def)
qed

section \<open>Properties of LessThan and GreaterEqThan\<close>

lemma fsub_less: "0 < p \<Longrightarrow> fsub p a b < p"
  by (simp add: fsub_def)

lemma fsub_ge:
  assumes "0 < p" "b \<le> a" "b < p" "a - b < p"
  shows "fsub p a b = a - b"
proof -
  have e: "a + (p - b) = (a - b) + p" using assms by simp
  have "fsub p a b = (a + (p - b)) mod p" using assms by (simp add: fsub_def)
  also have "\<dots> = ((a - b) + p) mod p" by (simp only: e)
  also have "\<dots> = (a - b) mod p" by simp
  also have "\<dots> = a - b" using assms by simp
  finally show ?thesis .
qed

lemma fsub_1_0 [simp]: "1 < p \<Longrightarrow> fsub p (Suc 0) 0 = Suc 0"
proof -
  assume p: "1 < p"
  have "(1 + p) mod p = 1 mod p" by (rule mod_add_self2)
  then show ?thesis using p by (simp add: fsub_def)
qed

lemma fsub_1_1 [simp]: "1 < p \<Longrightarrow> fsub p (Suc 0) (Suc 0) = 0"
  by (simp add: fsub_def)

lemma LessThan_in_less: "0 < p \<Longrightarrow> LessThan_in p n a b < p"
  by (simp add: LessThan_in_def fsub_less)

lemma LessThan_in_range:
  assumes "2 ^ (n + 1) < p" "a < 2 ^ n" "b < 2 ^ n"
  shows "LessThan_in p n a b = a + 2 ^ n - b"
proof -
  have n: "(2::nat) ^ n < p" and s: "a + 2 ^ n < p" using assms by simp_all
  have "fadd p a (2 ^ n mod p) = a + 2 ^ n" using n s by (simp add: fadd_def)
  moreover have "fsub p (a + 2 ^ n) b = a + 2 ^ n - b"
    using assms n s by (intro fsub_ge) simp_all
  ultimately show ?thesis by (simp add: LessThan_in_def)
qed

lemma Num2Bits_ok:
  "1 < p \<Longrightarrow> x < p \<Longrightarrow> x < 2 ^ n \<Longrightarrow> Num2Bits p n x = Inr (Num2Bits_out n x)"
  using Num2Bits_out_constraints [of p x n] by (simp add: Num2Bits_def)

lemma top_bit:
  assumes "s < 2 ^ (n + 1)"
  shows "(s div 2 ^ n) mod 2 = (if s < 2 ^ n then 0 else (1::nat))"
proof (cases "s < 2 ^ n")
  case True
  then show ?thesis by simp
next
  case False
  have "s div 2 ^ n < 2" using assms by (simp add: less_mult_imp_div_less)
  moreover have "0 < s div 2 ^ n" using False by (simp add: div_greater_zero_iff)
  ultimately have "s div 2 ^ n = 1" by simp
  then show ?thesis using False by simp
qed

lemma LessThan_value:
  assumes "1 < p" "n \<le> 252" "LessThan_in p n a b < 2 ^ (n + 1)"
  shows "LessThan p n a b = Inr (if LessThan_in p n a b < 2 ^ n then 1 else 0)"
proof -
  define s where "s = LessThan_in p n a b"
  have sp: "s < p" using assms(1) by (simp add: s_def LessThan_in_less)
  have "Num2Bits p (n + 1) s = Inr (Num2Bits_out (n + 1) s)"
    using assms(1) sp assms(3) by (intro Num2Bits_ok) (simp_all add: s_def)
  moreover have "Num2Bits_out (n + 1) s ! n = (if s < 2 ^ n then 0 else 1)"
    using top_bit [of s n] assms(3) by (simp add: Num2Bits_out_nth s_def)
  ultimately show ?thesis
    using assms(1,2) by (simp add: LessThan_def s_def [symmetric] fsub_1_0 fsub_1_1)
qed

lemma LessThan_fail:
  assumes "prime_nat p" "n \<le> 252" "\<not> LessThan_in p n a b < 2 ^ (n + 1)"
  shows "LessThan p n a b = Inl ConstraintUnsatisfiable"
proof -
  have "1 < p" using assms(1) by (simp add: prime_nat_def)
  then have "LessThan_in p n a b < p" by (simp add: LessThan_in_less)
  then show ?thesis using assms Num2Bits_eq [OF assms(1), of "LessThan_in p n a b" "n + 1"]
    by (simp add: LessThan_def)
qed

lemma LessThan_constraints_value:
  assumes "prime_nat p" "2 ^ (n + 1) \<le> p" "LessThan_constraints p n a b bits out"
  shows "LessThan_in p n a b < 2 ^ (n + 1)"
    and "bits = Num2Bits_out (n + 1) (LessThan_in p n a b)"
    and "out = (if LessThan_in p n a b < 2 ^ n then 1 else 0)"
proof -
  define s where "s = LessThan_in p n a b"
  have p: "1 < p" using assms(1) by (simp add: prime_nat_def)
  have c: "Num2Bits_constraints p (n + 1) s bits" and o: "out = fsub p 1 (bits ! n)"
    using assms(3) by (simp_all add: LessThan_constraints_def s_def)
  show b: "LessThan_in p n a b < 2 ^ (n + 1)"
    using Num2Bits_constraints_bound [OF assms(1) c] by (simp add: s_def)
  show e: "bits = Num2Bits_out (n + 1) (LessThan_in p n a b)"
    using Num2Bits_constraints_unique [OF assms(1,2) c] by (simp add: s_def)
  have "bits ! n = (if s < 2 ^ n then 0 else 1)"
    using top_bit [of s n] b e by (simp add: Num2Bits_out_nth s_def)
  then show "out = (if LessThan_in p n a b < 2 ^ n then 1 else 0)"
    using o p by (simp add: s_def fsub_1_0 fsub_1_1)
qed


lemma GreaterEqThan_value:
  assumes "1 < p" "n \<le> 252" "LessThan_in p n a b < 2 ^ (n + 1)"
  shows "GreaterEqThan p n a b = Inr (if LessThan_in p n a b < 2 ^ n then 0 else 1)"
  using assms(1) by (simp add: GreaterEqThan_def LessThan_value [OF assms])

lemma GreaterEqThan_fail:
  assumes "prime_nat p" "n \<le> 252" "\<not> LessThan_in p n a b < 2 ^ (n + 1)"
  shows "GreaterEqThan p n a b = Inl ConstraintUnsatisfiable"
  by (simp add: GreaterEqThan_def LessThan_fail [OF assms])

lemma GreaterEqThan_constraints_value:
  assumes "prime_nat p" "2 ^ (n + 1) \<le> p" "GreaterEqThan_constraints p n a b bits out"
  shows "LessThan_in p n a b < 2 ^ (n + 1)"
    and "out = (if LessThan_in p n a b < 2 ^ n then 0 else 1)"
proof -
  have p: "1 < p" using assms(1) by (simp add: prime_nat_def)
  obtain lt where lt: "LessThan_constraints p n a b bits lt" and o: "out = fsub p 1 lt"
    using assms(3) by (auto simp add: GreaterEqThan_constraints_def)
  show "LessThan_in p n a b < 2 ^ (n + 1)"
    by (rule LessThan_constraints_value(1) [OF assms(1,2) lt])
  show "out = (if LessThan_in p n a b < 2 ^ n then 0 else 1)"
    using LessThan_constraints_value(3) [OF assms(1,2) lt] o p by simp
qed

lemma LessThan_in_cmp:
  assumes "2 ^ (n + 1) < p" "a < 2 ^ n" "b < 2 ^ n"
  shows "LessThan_in p n a b < 2 ^ (n + 1)" "LessThan_in p n a b < 2 ^ n \<longleftrightarrow> a < b"
  using assms by (auto simp add: LessThan_in_range)

lemma LessThan_constraints_intro:
  assumes "1 < p" "n \<le> 252" "LessThan_in p n a b < 2 ^ (n + 1)"
  shows "LessThan_constraints p n a b (Num2Bits_out (n + 1) (LessThan_in p n a b))
           (if LessThan_in p n a b < 2 ^ n then 1 else 0)"
proof -
  define s where "s = LessThan_in p n a b"
  have sp: "s < p" using assms(1) by (simp add: s_def LessThan_in_less)
  have "Num2Bits_constraints p (n + 1) s (Num2Bits_out (n + 1) s)"
    using assms(1) sp assms(3) by (intro Num2Bits_out_constraints) (simp_all add: s_def)
  moreover have "Num2Bits_out (n + 1) s ! n = (if s < 2 ^ n then 0 else 1)"
    using top_bit [of s n] assms(3) by (simp add: Num2Bits_out_nth s_def)
  ultimately show ?thesis
    using assms(1,2) by (simp add: LessThan_constraints_def s_def [symmetric])
qed

lemma GreaterEqThan_constraints_intro:
  assumes "1 < p" "n \<le> 252" "LessThan_in p n a b < 2 ^ (n + 1)"
  shows "GreaterEqThan_constraints p n a b (Num2Bits_out (n + 1) (LessThan_in p n a b))
           (if LessThan_in p n a b < 2 ^ n then 0 else 1)"
  unfolding GreaterEqThan_constraints_def
  using LessThan_constraints_intro [OF assms] assms(1)
  by (intro exI [of _ "if LessThan_in p n a b < 2 ^ n then 1 else 0"]) simp

section \<open>Properties of the aggregation circuits\<close>

lemma running_sums_last:
  "0 < p \<Longrightarrow> s < p \<Longrightarrow> (s # running_sums p s fs) ! length fs = (s + sum_list fs) mod p"
proof (induction fs arbitrary: s)
  case Nil
  then show ?case by simp
next
  case (Cons f fs)
  have "fadd p s f < p" using Cons.prems by (simp add: fadd_def)
  then have "(fadd p s f # running_sums p (fadd p s f) fs) ! length fs
             = (fadd p s f + sum_list fs) mod p"
    using Cons.IH Cons.prems(1) by simp
  also have "\<dots> = (s + f + sum_list fs) mod p"
    by (simp add: fadd_def mod_add_left_eq)
  finally show ?case by (simp add: add.assoc)
qed

lemma completedSum_last:
  assumes "0 < p" "flags \<noteq> []" "list_all (\<lambda>f. f < p) flags"
  shows "completedSum p flags ! (length flags - 1) = sum_list flags mod p"
proof -
  obtain f fs where e: "flags = f # fs" using assms(2) by (cases flags) simp_all
  then have "f < p" using assms(3) by simp
  then show ?thesis using running_sums_last [OF assms(1), of f fs] e
    by (simp add: completedSum_def)
qed

lemma sum_list_bits:
  "list_all (\<lambda>f. f \<le> 1) flags \<Longrightarrow> sum_list flags = length (filter (\<lambda>f. f = 1) flags)"
  by (induction flags) (auto simp add: le_Suc_eq)

lemma sum_list_bits_le:
  "list_all (\<lambda>f. f \<le> 1) flags \<Longrightarrow> sum_list flags \<le> length flags"
  by (induction flags) auto

lemma is_bit_iff:
  assumes "prime_nat p" "f < p"
  shows "is_bit p f \<longleftrightarrow> f \<le> 1"
proof
  assume "is_bit p f"
  then show "f \<le> 1" using is_bit_prime [OF assms] by simp
next
  assume "f \<le> 1"
  moreover have "1 < p" using assms(1) by (simp add: prime_nat_def)
  ultimately show "is_bit p f" by (simp add: is_bit_le1)
qed

lemma list_all_is_bit_iff:
  assumes "prime_nat p" "list_all (\<lambda>f. f < p) flags"
  shows "list_all (is_bit p) flags \<longleftrightarrow> list_all (\<lambda>f. f \<le> 1) flags"
  using assms(2) is_bit_iff [OF assms(1)] by (induction flags) simp_all

lemma aggregate_comparator_input:
  assumes "2 ^ 9 < p" "flags \<noteq> []" "length flags \<le> 255" "list_all (\<lambda>f. f \<le> 1) flags" "k \<le> 255"
  shows "completedSum p flags ! (length flags - 1) = sum_list flags"
    and "LessThan_in p 8 (completedSum p flags ! (length flags - 1)) k < 2 ^ (8 + 1)"
    and "LessThan_in p 8 (completedSum p flags ! (length flags - 1)) k < 2 ^ 8
         \<longleftrightarrow> sum_list flags < k"
proof -
  have p: "0 < p" "512 < p" using assms(1) by simp_all
  have "f < p" if "f \<in> set flags" for f
  proof -
    have "f \<le> 1" using that assms(4) by (simp add: list_all_iff)
    then show ?thesis using p(2) by simp
  qed
  then have lt: "list_all (\<lambda>f. f < p) flags" by (simp add: list_all_iff)
  have s: "sum_list flags \<le> 255" using sum_list_bits_le [OF assms(4)] assms(3) by simp
  then have "sum_list flags mod p = sum_list flags" using p(2) by simp
  then show c: "completedSum p flags ! (length flags - 1) = sum_list flags"
    using completedSum_last [OF p(1) assms(2) lt] by simp
  have h: "2 ^ (8 + 1) < p" "sum_list flags < 2 ^ 8" "k < 2 ^ 8" using assms(1,5) s by simp_all
  show "LessThan_in p 8 (completedSum p flags ! (length flags - 1)) k < 2 ^ (8 + 1)"
    using LessThan_in_cmp(1) [OF h] c by simp
  show "LessThan_in p 8 (completedSum p flags ! (length flags - 1)) k < 2 ^ 8
         \<longleftrightarrow> sum_list flags < k"
    using LessThan_in_cmp(2) [OF h] c by simp
qed

lemma EvaluationAttestation_ok:
  assumes "2 ^ 9 < p" "0 < N" "N \<le> 255" "length flags = N"
    and "list_all (\<lambda>f. f \<le> 1) flags" "k \<le> sum_list flags"
  shows "EvaluationAttestation p N flags k =
           Inr \<lparr>public_signals = [1, k], private_signals = flags @ completedSum p flags\<rparr>"
    and "EvaluationAttestation_constraints p N flags k
           (Num2Bits_out 9 (LessThan_in p 8 (completedSum p flags ! (N - 1)) k)) 1"
proof -
  have p: "1 < p" using assms(1) by simp
  have ne: "flags \<noteq> []" and len: "length flags \<le> 255" using assms(2,3,4) by auto
  have k: "k \<le> 255" using assms(6) sum_list_bits_le [OF assms(5)] len by simp
  note a = aggregate_comparator_input [OF assms(1) ne len assms(5) k]
  have ib: "list_all (is_bit p) flags"
    using assms(5) p by (simp add: list_all_iff is_bit_le1)
  have n8: "(8::nat) \<le> 252" by simp
  have "GreaterEqThan p 8 (completedSum p flags ! (N - 1)) k = Inr 1"
    using GreaterEqThan_value [OF p n8, of "completedSum p flags ! (N - 1)" k] a assms(4,6)
    by simp
  then show "EvaluationAttestation p N flags k =
           Inr \<lparr>public_signals = [1, k], private_signals = flags @ completedSum p flags\<rparr>"
    using assms(2,4) ib by (simp add: EvaluationAttestation_def)
  have "GreaterEqThan_constraints p 8 (completedSum p flags ! (N - 1)) k
          (Num2Bits_out (8 + 1) (LessThan_in p 8 (completedSum p flags ! (N - 1)) k)) 1"
    using GreaterEqThan_constraints_intro [OF p n8, of "completedSum p flags ! (N - 1)" k]
          a assms(4,6) by simp
  then show "EvaluationAttestation_constraints p N flags k
           (Num2Bits_out 9 (LessThan_in p 8 (completedSum p flags ! (N - 1)) k)) 1"
    using assms(2,4) ib by (simp add: EvaluationAttestation_constraints_def)
qed

lemma EvaluationAttestation_constraints_sound:
  assumes "prime_nat p" "2 ^ 9 < p" "N \<le> 255" "list_all (\<lambda>f. f < p) flags" "k \<le> 255"
    and "EvaluationAttestation_constraints p N flags k bits valid"
  shows "list_all (\<lambda>f. f \<le> 1) flags \<and> k \<le> sum_list flags"
proof -
  have c0: "0 < N \<and> length flags = N \<and> list_all (is_bit p) flags \<and>
     GreaterEqThan_constraints p 8 (completedSum p flags ! (N - 1)) k bits valid \<and> valid = 1"
    using assms(6) unfolding EvaluationAttestation_constraints_def .
  have c: "0 < N" "length flags = N" "list_all (is_bit p) flags" "valid = 1"
    and g: "GreaterEqThan_constraints p 8 (completedSum p flags ! (N - 1)) k bits valid"
    using c0 by blast+
  have b: "list_all (\<lambda>f. f \<le> 1) flags"
    using c(3) list_all_is_bit_iff [OF assms(1,4)] by simp
  have ne: "flags \<noteq> []" and len: "length flags \<le> 255" using c(1,2) assms(3) by auto
  note a = aggregate_comparator_input [OF assms(2) ne len b assms(5)]
  have le: "(2::nat) ^ (8 + 1) \<le> p" using assms(2) by simp
  have g': "GreaterEqThan_constraints p 8 (completedSum p flags ! (length flags - 1)) k bits valid"
    using g by (simp only: c(2))
  have v: "valid = (if LessThan_in p 8 (completedSum p flags ! (length flags - 1)) k < 2 ^ 8
                    then 0 else 1)"
    by (rule GreaterEqThan_constraints_value(2) [OF assms(1) le g'])
  have "valid = (if sum_list flags < k then 0 else 1)"
    using v by (simp only: a(3))
  then have "\<not> sum_list flags < k" using c(4) by (cases "sum_list flags < k") simp_all
  then show ?thesis using b by simp
qed

lemma EvaluationAttestation_fail:
  assumes "prime_nat p" "2 ^ 9 < p" "0 < N" "N \<le> 255" "length flags = N"
    and "list_all (\<lambda>f. f < p) flags" "k \<le> 255"
    and "\<not> (list_all (\<lambda>f. f \<le> 1) flags \<and> k \<le> sum_list flags)"
  shows "EvaluationAttestation p N flags k = Inl ConstraintUnsatisfiable"
proof (cases "list_all (\<lambda>f. f \<le> 1) flags")
  case False
  then have "\<not> list_all (is_bit p) flags"
    using list_all_is_bit_iff [OF assms(1,6)] by simp
  then show ?thesis using assms(3,5) by (simp add: EvaluationAttestation_def)
next
  case True
  have p: "1 < p" using assms(2) by simp
  have ib: "list_all (is_bit p) flags"
    using True list_all_is_bit_iff [OF assms(1,6)] by simp
  have ne: "flags \<noteq> []" and len: "length flags \<le> 255" using assms(3,4,5) by auto
  note a = aggregate_comparator_input [OF assms(2) ne len True assms(7)]
  have n8: "(8::nat) \<le> 252" by simp
  have "sum_list flags < k" using True assms(8) by simp
  then have "GreaterEqThan p 8 (completedSum p flags ! (N - 1)) k = Inr 0"
    using GreaterEqThan_value [OF p n8, of "completedSum p flags ! (N - 1)" k] a assms(5)
    by simp
  then show ?thesis using assms(3,5) ib by (simp add: EvaluationAttestation_def)
qed

lemma PolicyCompliance_eq:
  "PolicyCompliance p N policyItems minRequired =
     (case EvaluationAttestation p N policyItems minRequired of Inl e \<Rightarrow> Inl e | Inr w \<Rightarrow> Inr w)"
  "itemSum p policyItems = completedSum p policyItems"
  "PolicyCompliance_constraints p N policyItems minRequired bits valid =
     EvaluationAttestation_constraints p N policyItems minRequired bits valid"
  by (simp_all add: PolicyCompliance_def EvaluationAttestation_def itemSum_def completedSum_def
        PolicyCompliance_constraints_def EvaluationAttestation_constraints_def
        split: sum.splits)

lemma bool_flags_iff:
  "list_all (\<lambda>f. f = 0 \<or> f = 1) flags \<longleftrightarrow> list_all (\<lambda>f. f \<le> (1::nat)) flags"
  by (induction flags) (auto simp add: le_Suc_eq)

lemma EvaluationAttestation_iff:
  assumes "prime_nat p" "2 ^ 9 < p" "0 < N" "N \<le> 255" "length flags = N"
    and "list_all (\<lambda>f. f < p) flags" "k \<le> N"
  shows "(\<exists>bits valid. EvaluationAttestation_constraints p N flags k bits valid) \<longleftrightarrow>
           list_all (\<lambda>f. f = 0 \<or> f = 1) flags \<and> k \<le> length (filter (\<lambda>f. f = 1) flags)"
    and "EvaluationAttestation p N flags k =
           (if list_all (\<lambda>f. f = 0 \<or> f = 1) flags \<and> k \<le> length (filter (\<lambda>f. f = 1) flags)
            then Inr \<lparr>public_signals = [1, k], private_signals = flags @ completedSum p flags\<rparr>
            else Inl ConstraintUnsatisfiable)"
proof -
  define P where "P \<longleftrightarrow> list_all (\<lambda>f. f \<le> 1) flags \<and> k \<le> sum_list flags"
  have k: "k \<le> 255" using assms(4,7) by simp
  have PQ: "P \<longleftrightarrow>
      list_all (\<lambda>f. f = 0 \<or> f = 1) flags \<and> k \<le> length (filter (\<lambda>f. f = 1) flags)"
    unfolding P_def bool_flags_iff using sum_list_bits [of flags]
    by (cases "list_all (\<lambda>f. f \<le> 1) flags") simp_all
  have 1: "P" if "EvaluationAttestation_constraints p N flags k bits valid" for bits valid
    using EvaluationAttestation_constraints_sound [OF assms(1,2,4,6) k that]
    by (simp add: P_def)
  have 2: "\<exists>bits valid. EvaluationAttestation_constraints p N flags k bits valid" if "P"
    using EvaluationAttestation_ok(2) [OF assms(2,3,4,5)] that by (auto simp add: P_def)
  have 3: "EvaluationAttestation p N flags k =
      Inr \<lparr>public_signals = [1, k], private_signals = flags @ completedSum p flags\<rparr>" if "P"
    using EvaluationAttestation_ok(1) [OF assms(2,3,4,5)] that by (simp add: P_def)
  have 4: "EvaluationAttestation p N flags k = Inl ConstraintUnsatisfiable" if "\<not> P"
    using EvaluationAttestation_fail [OF assms(1,2,3,4,5,6) k] that by (simp add: P_def)
  show "(\<exists>bits valid. EvaluationAttestation_constraints p N flags k bits valid) \<longleftrightarrow>
           list_all (\<lambda>f. f = 0 \<or> f = 1) flags \<and> k \<le> length (filter (\<lambda>f. f = 1) flags)"
    unfolding PQ [symmetric] using 1 2 by blast
  show "EvaluationAttestation p N flags k =
           (if list_all (\<lambda>f. f = 0 \<or> f = 1) flags \<and> k \<le> length (filter (\<lambda>f. f = 1) flags)
            then Inr \<lparr>public_signals = [1, k], private_signals = flags @ completedSum p flags\<rparr>
            else Inl ConstraintUnsatisfiable)"
    unfolding PQ [symmetric] using 3 4 by (cases P) simp_all
qed

lemma prime_nat_521: "prime_nat 521"
  by (simp add: prime_nat_trial trial.simps)

section \<open>Properties of ComputeThreshold\<close>

lemma bn128_bounds: "2 ^ 253 < bn128" "bn128 < 2 ^ 254" "1 < bn128" "0 < bn128"
  by (simp_all add: bn128_def)

lemma ComputeThreshold_ok:
  assumes "1 < p" "LessThan_in p 252 v t < 2 ^ 252"
  shows "ComputeThreshold p v t =
           Inr \<lparr>public_signals = [1, t],
                private_signals = v # fsub p t v # Num2Bits_out 253 (LessThan_in p 252 v t)\<rparr>"
    and "ComputeThreshold_constraints p v t (fsub p t v)
           (Num2Bits_out 253 (LessThan_in p 252 v t)) 1"
proof -
  have n: "(252::nat) \<le> 252" by simp
  have b: "LessThan_in p 252 v t < 2 ^ (252 + 1)" using assms(2) by simp
  have "LessThan p 252 v t = Inr 1"
    using LessThan_value [OF assms(1) n b] assms(2) by simp
  then show "ComputeThreshold p v t =
           Inr \<lparr>public_signals = [1, t],
                private_signals = v # fsub p t v # Num2Bits_out 253 (LessThan_in p 252 v t)\<rparr>"
    by (simp add: ComputeThreshold_def)
  have "LessThan_constraints p 252 v t (Num2Bits_out (252 + 1) (LessThan_in p 252 v t)) 1"
    using LessThan_constraints_intro [OF assms(1) n b] assms(2) by simp
  then show "ComputeThreshold_constraints p v t (fsub p t v)
           (Num2Bits_out 253 (LessThan_in p 252 v t)) 1"
    by (simp add: ComputeThreshold_constraints_def)
qed

lemma ComputeThreshold_reject:
  assumes "1 < p" "\<not> LessThan_in p 252 v t < 2 ^ 252" "LessThan_in p 252 v t < 2 ^ 253"
  shows "ComputeThreshold p v t = Inl ConstraintUnsatisfiable"
proof -
  have n: "(252::nat) \<le> 252" by simp
  have b: "LessThan_in p 252 v t < 2 ^ (252 + 1)" using assms(3) by simp
  have "LessThan p 252 v t = Inr 0"
    using LessThan_value [OF assms(1) n b] assms(2) by simp
  then show ?thesis by (simp add: ComputeThreshold_def)
qed

lemma ComputeThreshold_public:
  "ComputeThreshold p v t = Inr w \<Longrightarrow> public_signals w = [1, t]"
  by (auto simp add: ComputeThreshold_def Let_def split: sum.splits if_splits)

lemma LessThan_in_minus_one:
  assumes "2 ^ 253 < p" "t < 2 ^ 252"
  shows "LessThan_in p 252 (p - 1) t = 2 ^ 252 - 1 - t"
proof -
  have p: "(2::nat) ^ 252 < p" "0 < p"
    using assms(1) less_trans [of "(2::nat) ^ 252" "2 ^ 253" p] by simp_all
  have e: "(p - 1) + 2 ^ 252 = (2 ^ 252 - 1) + p" using p by simp
  have "fadd p (p - 1) (2 ^ 252 mod p) = ((p - 1) + 2 ^ 252) mod p"
    using p by (simp add: fadd_def)
  also have "\<dots> = ((2 ^ 252 - 1) + p) mod p" by (simp only: e)
  also have "\<dots> = (2 ^ 252 - 1) mod p" by simp
  also have "\<dots> = 2 ^ 252 - 1" using p by simp
  finally have a: "fadd p (p - 1) (2 ^ 252 mod p) = 2 ^ 252 - 1" .
  have "fsub p (2 ^ 252 - 1) t = 2 ^ 252 - 1 - t"
    using assms(2) p by (intro fsub_ge) simp_all
  then show ?thesis using a by (simp add: LessThan_in_def)
qed

section \<open>Properties of the scripts\<close>

lemma echo_build_keys:
  "zkey echo_build ''compute_threshold'' = Some ''compute_threshold''"
  "zkey echo_build ''evaluation_attestation'' = Some ''evaluation_attestation''"
  "zkey echo_build ''policy_compliance'' = Some ''policy_compliance''"
  "verification_key echo_build ''compute_threshold'' = Some ''compute_threshold''"
  "verification_key echo_build ''evaluation_attestation'' = Some ''evaluation_attestation''"
  "verification_key echo_build ''policy_compliance'' = Some ''policy_compliance''"
  by (simp_all add: echo_build_def circuits_def)

lemma as_strings_JStr: "as_strings (JArr (map JStr xs)) = Some xs"
  by (simp add: list_all_iff comp_def)

lemma proofData_compositeProof:
  "proofData (compositeProof now ps) ''compute_threshold'' =
     Some (publicSignals (compute ps), proof_obj (compute ps))"
  "proofData (compositeProof now ps) ''evaluation_attestation'' =
     Some (publicSignals (evaluation ps), proof_obj (evaluation ps))"
  "proofData (compositeProof now ps) ''policy_compliance'' =
     Some (publicSignals (policy ps), proof_obj (policy ps))"
  by (simp_all add: proofData_def compositeProof_def member_json_def as_strings_JStr
        del: as_strings.simps)

lemma dec_1: "dec 1 = ''1''" "dec (Suc 0) = ''1''"
  by (simp_all add: dec.simps digit_char_def)

lemma aggregate_public:
  "EvaluationAttestation p N flags k = Inr w \<Longrightarrow> public_signals w = [1, k]"
  by (auto simp add: EvaluationAttestation_def split: sum.splits if_splits)

lemma calculateWitness_public:
  assumes "calculateWitness p c input = Inr w"
  shows "\<exists>x. public_signals w = [1, x]"
proof (cases input)
  case (ComputeThresholdInput v t)
  then show ?thesis using assms ComputeThreshold_public [of p "v mod p" "t mod p" w]
    by (auto simp add: calculateWitness_def split: if_splits)
next
  case (EvaluationAttestationInput fs k)
  then show ?thesis
    using assms aggregate_public [of p 5 "map (\<lambda>f. f mod p) fs" "k mod p" w]
    by (auto simp add: calculateWitness_def split: if_splits)
next
  case (PolicyComplianceInput fs k)
  then show ?thesis
    using assms aggregate_public [of p 8 "map (\<lambda>f. f mod p) fs" "k mod p" w]
    by (auto simp add: calculateWitness_def PolicyCompliance_eq(1) split: if_splits sum.splits)
qed

lemma fullProve_valid:
  assumes "fullProve E B p c input = Inr r"
  shows "hd (publicSignals r) = ''1''"
proof -
  obtain zk w where w: "calculateWitness p c input = Inr w"
    and r: "r = \<lparr>proof_obj = groth16_prove E zk w, publicSignals = map dec (public_signals w)\<rparr>"
    using assms by (auto simp add: fullProve_def split: option.splits sum.splits)
  obtain x where "public_signals w = [1, x]" using calculateWitness_public [OF w] by blast
  then show ?thesis using r by (simp add: dec_1)
qed

lemma ComputeThreshold_in_range:
  assumes "2 ^ 253 < p" "v < 2 ^ 252" "t < 2 ^ 252"
  shows "LessThan_in p 252 v t < 2 ^ 253" "LessThan_in p 252 v t < 2 ^ 252 \<longleftrightarrow> v < t"
proof -
  have h: "2 ^ (252 + 1) < p" using assms(1) by simp
  show "LessThan_in p 252 v t < 2 ^ 253" using LessThan_in_cmp(1) [OF h assms(2,3)] by simp
  show "LessThan_in p 252 v t < 2 ^ 252 \<longleftrightarrow> v < t" by (rule LessThan_in_cmp(2) [OF h assms(2,3)])
qed

lemma calculateWitness_compute:
  assumes "2 ^ 253 < p" "v < 2 ^ 252" "t < 2 ^ 252"
  shows "v < t \<Longrightarrow> \<exists>w. calculateWitness p ''compute_threshold'' (ComputeThresholdInput v t) = Inr w
                         \<and> public_signals w = [1, t]"
    and "\<not> v < t \<Longrightarrow> calculateWitness p ''compute_threshold'' (ComputeThresholdInput v t)
                         = Inl ConstraintUnsatisfiable"
proof -
  have p: "1 < p" "(2::nat) ^ 252 < p"
    using assms(1) less_trans [of "(2::nat) ^ 252" "2 ^ 253" p] by simp_all
  have m: "v mod p = v" "t mod p = t" using assms(2,3) p(2) by simp_all
  note r = ComputeThreshold_in_range [OF assms]
  show "\<exists>w. calculateWitness p ''compute_threshold'' (ComputeThresholdInput v t) = Inr w
             \<and> public_signals w = [1, t]" if "v < t"
    using ComputeThreshold_ok(1) [OF p(1), of v t] r(2) that m
    by (simp add: calculateWitness_def)
  show "calculateWitness p ''compute_threshold'' (ComputeThresholdInput v t)
          = Inl ConstraintUnsatisfiable" if "\<not> v < t"
    using ComputeThreshold_reject [OF p(1), of v t] r that m
    by (simp add: calculateWitness_def)
qed

lemma keys_compositeProof:
  "keys (compositeProof now ps) = [''version'', ''timestamp'', ''proofs'', ''metadata'']"
  by (simp add: compositeProof_def)

lemma dec_threshold: "dec (10 ^ 25) = ''10000000000000000000000000''"
  by (simp add: dec.simps digit_char_def)

lemma fullProve_ok:
  assumes "zkey B c = Some zk" "calculateWitness p c input = Inr w"
  shows "fullProve E B p c input =
           Inr \<lparr>proof_obj = groth16_prove E zk w, publicSignals = map dec (public_signals w)\<rparr>"
  using assms by (simp add: fullProve_def)

lemma bool_flags_mod:
  assumes "1 < p" "list_all (\<lambda>f. f = 0 \<or> f = 1) flags"
  shows "map (\<lambda>f. f mod p) flags = (flags :: nat list)"
  using assms by (induction flags) auto

lemma aggregate_witness:
  assumes "2 ^ 9 < p" "0 < N" "N \<le> 255" "length flags = N"
    and "list_all (\<lambda>f. f = 0 \<or> f = 1) flags" "k \<le> length (filter (\<lambda>f. f = 1) flags)"
  shows "EvaluationAttestation p N (map (\<lambda>f. f mod p) flags) (k mod p) =
           Inr \<lparr>public_signals = [1, k], private_signals = flags @ completedSum p flags\<rparr>"
proof -
  have p: "1 < p" "512 < p" using assms(1) by simp_all
  have b: "list_all (\<lambda>f. f \<le> 1) flags" using assms(5) bool_flags_iff [of flags] by blast
  have s: "k \<le> sum_list flags" using assms(6) sum_list_bits [OF b] by simp
  have "k \<le> 255" using s sum_list_bits_le [OF b] assms(3,4) by simp
  then have "k mod p = k" using p(2) by simp
  then show ?thesis
    using EvaluationAttestation_ok(1) [OF assms(1,2,3,4) b s] bool_flags_mod [OF p(1) assms(5)]
    by simp
qed

lemma scenario_1_witness_calc:
  "calculateWitness bn128 ''compute_threshold'' (ComputeThresholdInput (5 * 10 ^ 24) (10 ^ 25)) =
     Inr \<lparr>public_signals = [1, 10 ^ 25],
          private_signals = (5 * 10 ^ 24) # fsub bn128 (10 ^ 25) (5 * 10 ^ 24) #
            Num2Bits_out 253 (LessThan_in bn128 252 (5 * 10 ^ 24) (10 ^ 25))\<rparr>"
proof -
  have b: "(5 * 10 ^ 24 :: nat) < 2 ^ 252" "(10 ^ 25 :: nat) < 2 ^ 252" by simp_all
  have m: "(5 * 10 ^ 24) mod bn128 = 5 * 10 ^ 24" "10 ^ 25 mod bn128 = 10 ^ 25"
    by (simp_all add: bn128_def)
  have "LessThan_in bn128 252 (5 * 10 ^ 24) (10 ^ 25) < 2 ^ 252"
    using ComputeThreshold_in_range(2) [OF bn128_bounds(1) b] by simp
  then show ?thesis
    using ComputeThreshold_ok(1) [OF bn128_bounds(3), of "5 * 10 ^ 24" "10 ^ 25"] m
    by (simp add: calculateWitness_def)
qed

lemma minus_one_witness_calc:
  "calculateWitness bn128 ''compute_threshold'' (ComputeThresholdInput (bn128 - 1) (10 ^ 25)) =
     Inr \<lparr>public_signals = [1, 10 ^ 25],
          private_signals = (bn128 - 1) # fsub bn128 (10 ^ 25) (bn128 - 1) #
            Num2Bits_out 253 (LessThan_in bn128 252 (bn128 - 1) (10 ^ 25))\<rparr>"
proof -
  have t: "(10 ^ 25 :: nat) < 2 ^ 252" by simp
  have m: "(bn128 - 1) mod bn128 = bn128 - 1" "10 ^ 25 mod bn128 = 10 ^ 25"
    by (simp_all add: bn128_def)
  have "LessThan_in bn128 252 (bn128 - 1) (10 ^ 25) < 2 ^ 252"
    using LessThan_in_minus_one [OF bn128_bounds(1) t] by simp
  then show ?thesis
    using ComputeThreshold_ok(1) [OF bn128_bounds(3), of "bn128 - 1" "10 ^ 25"] m
    by (simp add: calculateWitness_def)
qed

text \<open>
  What the circuits give on compliant inputs, whatever the engine: the proving call returns
  a pair whose public signals are the constant 1 followed by the public input. Whether that
  pair then verifies is decided by the engine and its keys, which the repository does not
  contain.
\<close>
lemma generation_succeeds:
  assumes "2 ^ 253 < p"
    and "zkey B ''compute_threshold'' = Some zk1"
    and "zkey B ''evaluation_attestation'' = Some zk2"
    and "zkey B ''policy_compliance'' = Some zk3"
  shows "(privateCompute < threshold \<and> threshold < 2 ^ 252 \<longrightarrow>
            (\<exists>r. fullProve E B p ''compute_threshold''
                   (ComputeThresholdInput privateCompute threshold) = Inr r \<and>
                 publicSignals r = [''1'', dec threshold])) \<and>
         (length evaluationFlags = 5 \<and> list_all (\<lambda>f. f = 0 \<or> f = 1) evaluationFlags \<and>
          requiredCount \<le> length (filter (\<lambda>f. f = 1) evaluationFlags) \<longrightarrow>
            (\<exists>r. fullProve E B p ''evaluation_attestation''
                   (EvaluationAttestationInput evaluationFlags requiredCount) = Inr r \<and>
                 publicSignals r = [''1'', dec requiredCount])) \<and>
         (length policyItems = 8 \<and> list_all (\<lambda>f. f = 0 \<or> f = 1) policyItems \<and>
          minRequired \<le> length (filter (\<lambda>f. f = 1) policyItems) \<longrightarrow>
            (\<exists>r. fullProve E B p ''policy_compliance''
                   (PolicyComplianceInput policyItems minRequired) = Inr r \<and>
                 publicSignals r = [''1'', dec minRequired]))"
proof (intro conjI impI)
  have p9: "2 ^ 9 < p" using assms(1) less_trans [of "(2::nat) ^ 9" "2 ^ 253" p] by simp
  {
    assume a: "privateCompute < threshold \<and> threshold < 2 ^ 252"
    then have "privateCompute < 2 ^ 252" by simp
    then obtain w where w: "calculateWitness p ''compute_threshold''
                              (ComputeThresholdInput privateCompute threshold) = Inr w"
      and s: "public_signals w = [1, threshold]"
      using calculateWitness_compute(1) [OF assms(1), of privateCompute threshold] a by blast
    show "\<exists>r. fullProve E B p ''compute_threshold''
                 (ComputeThresholdInput privateCompute threshold) = Inr r \<and>
               publicSignals r = [''1'', dec threshold]"
      using fullProve_ok [OF assms(2) w, of E] s by (simp add: dec_1)
  }
  {
    assume a: "length evaluationFlags = 5 \<and> list_all (\<lambda>f. f = 0 \<or> f = 1) evaluationFlags \<and>
               requiredCount \<le> length (filter (\<lambda>f. f = 1) evaluationFlags)"
    have w: "calculateWitness p ''evaluation_attestation''
            (EvaluationAttestationInput evaluationFlags requiredCount) =
          Inr \<lparr>public_signals = [1, requiredCount],
               private_signals = evaluationFlags @ completedSum p evaluationFlags\<rparr>"
      using aggregate_witness [OF p9, of 5 evaluationFlags requiredCount] a
      by (simp add: calculateWitness_def)
    show "\<exists>r. fullProve E B p ''evaluation_attestation''
                 (EvaluationAttestationInput evaluationFlags requiredCount) = Inr r \<and>
               publicSignals r = [''1'', dec requiredCount]"
      using fullProve_ok [OF assms(3) w, of E] by (simp add: dec_1)
  }
  {
    assume a: "length policyItems = 8 \<and> list_all (\<lambda>f. f = 0 \<or> f = 1) policyItems \<and>
               minRequired \<le> length (filter (\<lambda>f. f = 1) policyItems)"
    have w: "calculateWitness p ''policy_compliance''
            (PolicyComplianceInput policyItems minRequired) =
          Inr \<lparr>public_signals = [1, minRequired],
               private_signals = policyItems @ completedSum p policyItems\<rparr>"
      using aggregate_witness [OF p9, of 8 policyItems minRequired] a
      by (simp add: calculateWitness_def PolicyCompliance_eq(1))
    show "\<exists>r. fullProve E B p ''policy_compliance''
                 (PolicyComplianceInput policyItems minRequired) = Inr r \<and>
               publicSignals r = [''1'', dec minRequired]"
      using fullProve_ok [OF assms(4) w, of E] by (simp add: dec_1)
  }
qed

lemma scenario_1_generation:
  assumes "zkey B ''compute_threshold'' = Some zk"
  shows "\<exists>r. fullProve E B bn128 ''compute_threshold''
               (ComputeThresholdInput (5 * 10 ^ 24) (10 ^ 25)) = Inr r \<and>
             fst (generateComputeThresholdProof E B bn128 (5 * 10 ^ 24) (10 ^ 25) fs) = Inr r \<and>
             publicSignals r = [''1'', ''10000000000000000000000000'']"
  using fullProve_ok [OF assms scenario_1_witness_calc, of E] dec_threshold
  by (simp add: generateComputeThresholdProof_def generateProof_def dec_1)

section \<open>Claims\<close>

text \<open>
  C3. Bit-decomposition satisfiability: for a field element \<open>x\<close> and a bit-width \<open>n\<close>,
  the constraints of \<open>Num2Bits(n)\<close> (every output bit satisfies \<open>b * (b - 1) = 0\<close>, the
  weighted sum of the bits equals \<open>x\<close>) have a satisfying assignment if and only if the
  integer value of \<open>x\<close> is below \<open>2 ^ n\<close>; witness generation succeeds in exactly
  that case and fails with an unsatisfied constraint otherwise.
\<close>
theorem Num2Bits_satisfiable_iff:
  assumes "prime_nat p" "x < p"
  shows "((\<exists>out. Num2Bits_constraints p n x out) \<longleftrightarrow> x < 2 ^ n) \<and>
         (x < 2 ^ n \<longrightarrow> Num2Bits p n x = Inr (Num2Bits_out n x)) \<and>
         (\<not> x < 2 ^ n \<longrightarrow> Num2Bits p n x = Inl ConstraintUnsatisfiable)"
proof -
  have p: "1 < p" using assms(1) by (simp add: prime_nat_def)
  have "(\<exists>out. Num2Bits_constraints p n x out) \<longleftrightarrow> x < 2 ^ n"
    using Num2Bits_constraints_bound [OF assms(1)] Num2Bits_out_constraints [OF p assms(2)]
    by blast
  then show ?thesis using Num2Bits_eq [OF assms] by simp
qed

lemma prime_nat_13: "prime_nat 13"
  by (simp add: prime_nat_trial trial.simps)

theorem Num2Bits_satisfiable_iff_witness:
  "prime_nat 13 \<and> (5::nat) < 13 \<and> (12::nat) < 13 \<and>
   (\<exists>out. Num2Bits_constraints 13 3 5 out) \<and> Num2Bits 13 3 5 = Inr [1, 0, 1] \<and>
   \<not> (\<exists>out. Num2Bits_constraints 13 3 12 out) \<and> Num2Bits 13 3 12 = Inl ConstraintUnsatisfiable"
proof -
  have a: "(5::nat) < 13" and b: "(12::nat) < 13" by simp_all
  have c: "Num2Bits_out 3 5 = [1, 0, 1]" by code_simp
  show ?thesis
    using Num2Bits_satisfiable_iff [OF prime_nat_13 a, of 3]
          Num2Bits_satisfiable_iff [OF prime_nat_13 b, of 3] prime_nat_13 c
    by simp
qed

text \<open>
  C2. Strict comparator: for \<open>a\<close>, \<open>b\<close> below \<open>2 ^ n\<close> with \<open>n \<le> 252\<close>, \<open>LessThan(n)\<close>
  decomposes \<open>s = a + 2 ^ n - b\<close> into \<open>n + 1\<close> bits and outputs \<open>1 - bit n\<close>, which is 1
  exactly when \<open>a < b\<close> (so 0 when \<open>a = b\<close>), and \<open>GreaterEqThan(n)\<close> outputs one minus
  that, 1 exactly when \<open>a \<ge> b\<close>; every assignment satisfying the constraints carries the
  same outputs.
\<close>
theorem LessThan_strict_comparator:
  assumes "prime_nat p" "2 ^ (n + 1) < p" "n \<le> 252" "a < 2 ^ n" "b < 2 ^ n"
  shows "LessThan_in p n a b = a + 2 ^ n - b \<and>
         LessThan p n a b = Inr (fsub p 1 (Num2Bits_out (n + 1) (a + 2 ^ n - b) ! n)) \<and>
         LessThan p n a b = Inr (if a < b then 1 else 0) \<and>
         LessThan p n a a = Inr 0 \<and>
         GreaterEqThan p n a b = Inr (if b \<le> a then 1 else 0) \<and>
         (\<forall>bits out. LessThan_constraints p n a b bits out \<longrightarrow> out = (if a < b then 1 else 0)) \<and>
         (\<forall>bits out. GreaterEqThan_constraints p n a b bits out \<longrightarrow>
            out = (if b \<le> a then 1 else 0))"
proof -
  have p: "1 < p" using assms(1) by (simp add: prime_nat_def)
  have le: "(2::nat) ^ (n + 1) \<le> p" using assms(2) by simp
  note r = LessThan_in_range [OF assms(2,4,5)]
  note c = LessThan_in_cmp [OF assms(2,4,5)]
  have v: "LessThan p n a b = Inr (if a < b then 1 else 0)"
    using LessThan_value [OF p assms(3) c(1)] c(2) by simp
  have b: "LessThan p n a b = Inr (fsub p 1 (Num2Bits_out (n + 1) (a + 2 ^ n - b) ! n))"
  proof -
    have "LessThan_in p n a b < p" using p by (simp add: LessThan_in_less)
    then have "Num2Bits p (n + 1) (LessThan_in p n a b) =
               Inr (Num2Bits_out (n + 1) (LessThan_in p n a b))"
      using p c(1) by (intro Num2Bits_ok) simp_all
    then show ?thesis using assms(3) r by (simp add: LessThan_def)
  qed
  have "LessThan p n a a = Inr (if a < a then 1 else 0)"
    using LessThan_value [OF p assms(3) LessThan_in_cmp(1) [OF assms(2,4,4)]]
          LessThan_in_cmp(2) [OF assms(2,4,4)] by simp
  then have eq: "LessThan p n a a = Inr 0" by simp
  have g: "GreaterEqThan p n a b = Inr (if b \<le> a then 1 else 0)"
    using GreaterEqThan_value [OF p assms(3) c(1)] c(2) by (simp add: not_less)
  have lc: "out = (if a < b then 1 else 0)" if "LessThan_constraints p n a b bits out" for bits out
    using LessThan_constraints_value(3) [OF assms(1) le that] c(2) by simp
  have gc: "out = (if b \<le> a then 1 else 0)"
    if "GreaterEqThan_constraints p n a b bits out" for bits out
    using GreaterEqThan_constraints_value(2) [OF assms(1) le that] c(2) by (simp add: not_less)
  show ?thesis using r b v eq g lc gc by blast
qed

theorem LessThan_strict_comparator_witness:
  "prime_nat 13 \<and> (2::nat) ^ (2 + 1) < 13 \<and> (2::nat) \<le> 252 \<and> (1::nat) < 2 ^ 2 \<and> (3::nat) < 2 ^ 2 \<and>
   LessThan 13 2 1 3 = Inr 1 \<and> LessThan 13 2 3 1 = Inr 0 \<and> LessThan 13 2 3 3 = Inr 0 \<and>
   GreaterEqThan 13 2 1 3 = Inr 0 \<and> GreaterEqThan 13 2 3 1 = Inr 1 \<and> GreaterEqThan 13 2 3 3 = Inr 1"
proof -
  have h: "(2::nat) ^ (2 + 1) < 13" "(2::nat) \<le> 252" "(1::nat) < 2 ^ 2" "(3::nat) < 2 ^ 2"
    by simp_all
  note t1 = LessThan_strict_comparator [OF prime_nat_13 h(1,2,3,4)]
  note t2 = LessThan_strict_comparator [OF prime_nat_13 h(1,2,4,3)]
  have "LessThan 13 2 1 3 = Inr (if (1::nat) < 3 then 1 else 0)"
    and "LessThan 13 2 3 1 = Inr (if (3::nat) < 1 then 1 else 0)"
    and "LessThan 13 2 3 3 = Inr 0"
    and "GreaterEqThan 13 2 1 3 = Inr (if (3::nat) \<le> 1 then 1 else 0)"
    and "GreaterEqThan 13 2 3 1 = Inr (if (1::nat) \<le> 3 then 1 else 0)"
    and "GreaterEqThan 13 2 3 3 = Inr (if (3::nat) \<le> 3 then 1 else 0)"
    using t1 t2 LessThan_strict_comparator [OF prime_nat_13 h(1,2,4,4)] by blast+
  then show ?thesis using prime_nat_13 by simp
qed

text \<open>
  C4. Flag aggregation: with \<open>N\<close> flags (5 in EvaluationAttestation, 8 in PolicyCompliance,
  any count up to 255 here) and a public minimum \<open>k \<le> N\<close>, the circuit constrains every
  flag to a bit, accumulates the prefix sums, compares the last sum with \<open>k\<close> in an 8-bit
  greater-or-equal comparator and forces the result to 1. Its constraints are satisfiable
  for given flags if and only if every flag is 0 or 1 and at least \<open>k\<close> of them are 1;
  witness generation succeeds exactly then, with public signals \<open>[1, k]\<close>.
\<close>
theorem flag_aggregation_satisfiable_iff:
  assumes "prime_nat p" "2 ^ 9 < p" "0 < N" "N \<le> 255" "length flags = N"
    and "list_all (\<lambda>f. f < p) flags" "k \<le> N"
  shows "((\<exists>bits valid. EvaluationAttestation_constraints p N flags k bits valid) \<longleftrightarrow>
            list_all (\<lambda>f. f = 0 \<or> f = 1) flags \<and> k \<le> length (filter (\<lambda>f. f = 1) flags)) \<and>
         ((\<exists>bits valid. PolicyCompliance_constraints p N flags k bits valid) \<longleftrightarrow>
            list_all (\<lambda>f. f = 0 \<or> f = 1) flags \<and> k \<le> length (filter (\<lambda>f. f = 1) flags)) \<and>
         EvaluationAttestation p N flags k =
           (if list_all (\<lambda>f. f = 0 \<or> f = 1) flags \<and> k \<le> length (filter (\<lambda>f. f = 1) flags)
            then Inr \<lparr>public_signals = [1, k], private_signals = flags @ completedSum p flags\<rparr>
            else Inl ConstraintUnsatisfiable) \<and>
         PolicyCompliance p N flags k =
           (if list_all (\<lambda>f. f = 0 \<or> f = 1) flags \<and> k \<le> length (filter (\<lambda>f. f = 1) flags)
            then Inr \<lparr>public_signals = [1, k], private_signals = flags @ itemSum p flags\<rparr>
            else Inl ConstraintUnsatisfiable)"
  using EvaluationAttestation_iff [OF assms]
  by (simp add: PolicyCompliance_eq)

theorem flag_aggregation_satisfiable_iff_witness:
  "prime_nat 521 \<and> (2::nat) ^ 9 < 521 \<and>
   (\<exists>bits valid. EvaluationAttestation_constraints 521 5 [1, 1, 1, 0, 1] 4 bits valid) \<and>
   \<not> (\<exists>bits valid. EvaluationAttestation_constraints 521 5 [1, 1, 1, 0, 1] 5 bits valid) \<and>
   \<not> (\<exists>bits valid. EvaluationAttestation_constraints 521 5 [1, 1, 2, 1, 1] 3 bits valid) \<and>
   EvaluationAttestation 521 5 [1, 1, 1, 0, 1] 5 = Inl ConstraintUnsatisfiable \<and>
   (\<exists>bits valid. PolicyCompliance_constraints 521 8 [1, 1, 1, 1, 1, 1, 1, 1] 8 bits valid) \<and>
   PolicyCompliance 521 8 [1, 0, 1, 1, 1, 1, 1, 1] 8 = Inl ConstraintUnsatisfiable"
proof -
  have h: "(2::nat) ^ 9 < 521" "(0::nat) < 5" "(5::nat) \<le> 255" "(0::nat) < 8" "(8::nat) \<le> 255"
    by simp_all
  have a: "length [1, 1, 1, 0, 1::nat] = 5" "list_all (\<lambda>f. f < 521) [1, 1, 1, 0, 1::nat]"
    and b: "length [1, 1, 2, 1, 1::nat] = 5" "list_all (\<lambda>f. f < 521) [1, 1, 2, 1, 1::nat]"
    and c: "length [1, 1, 1, 1, 1, 1, 1, 1::nat] = 8"
           "list_all (\<lambda>f. f < 521) [1, 1, 1, 1, 1, 1, 1, 1::nat]"
    and d: "length [1, 0, 1, 1, 1, 1, 1, 1::nat] = 8"
           "list_all (\<lambda>f. f < 521) [1, 0, 1, 1, 1, 1, 1, 1::nat]"
    and k: "(4::nat) \<le> 5" "(5::nat) \<le> 5" "(3::nat) \<le> 5" "(8::nat) \<le> 8"
    by simp_all
  show ?thesis
    using flag_aggregation_satisfiable_iff [OF prime_nat_521 h(1,2,3) a k(1)]
          flag_aggregation_satisfiable_iff [OF prime_nat_521 h(1,2,3) a k(2)]
          flag_aggregation_satisfiable_iff [OF prime_nat_521 h(1,2,3) b k(3)]
          flag_aggregation_satisfiable_iff [OF prime_nat_521 h(1,4,5) c k(4)]
          flag_aggregation_satisfiable_iff [OF prime_nat_521 h(1,4,5) d k(4)]
          prime_nat_521
    by simp
qed

text \<open>
  C10. Range gap of the compute circuit: nothing bounds \<open>privateCompute\<close> itself, only the
  decomposition of \<open>privateCompute + 2 ^ 252 - threshold\<close>. For every threshold below
  \<open>2 ^ 252\<close> the field element \<open>p - 1\<close> (that is, \<open>-1\<close>), whose canonical value is far above
  the threshold, satisfies every constraint including \<open>valid === 1\<close>, and witness
  generation succeeds on it with public signals \<open>[1, threshold]\<close>.
\<close>
theorem ComputeThreshold_range_gap:
  assumes "2 ^ 253 < p" "t < 2 ^ 252"
  shows "t \<le> p - 1 \<and>
         (\<exists>difference bits. ComputeThreshold_constraints p (p - 1) t difference bits 1) \<and>
         (\<exists>w. ComputeThreshold p (p - 1) t = Inr w \<and> public_signals w = [1, t])"
proof -
  have p: "1 < p" "(2::nat) ^ 252 < p"
    using assms(1) less_trans [of "(2::nat) ^ 252" "2 ^ 253" p] by simp_all
  have b: "LessThan_in p 252 (p - 1) t < 2 ^ 252"
    using LessThan_in_minus_one [OF assms] by simp
  have "t \<le> p - 1" using assms(2) p(2) by simp
  then show ?thesis using ComputeThreshold_ok [OF p(1) b] by auto
qed

theorem ComputeThreshold_range_gap_witness:
  "(2::nat) ^ 253 < bn128 \<and> (10::nat) ^ 25 < 2 ^ 252 \<and> (10::nat) ^ 25 \<le> bn128 - 1 \<and>
   (\<exists>difference bits.
      ComputeThreshold_constraints bn128 (bn128 - 1) (10 ^ 25) difference bits 1) \<and>
   (\<exists>w. ComputeThreshold bn128 (bn128 - 1) (10 ^ 25) = Inr w \<and>
        public_signals w = [1, 10 ^ 25])"
proof -
  have t: "(10::nat) ^ 25 < 2 ^ 252" by simp
  show ?thesis
    using ComputeThreshold_range_gap [OF bn128_bounds(1) t] bn128_bounds(1) t by simp
qed

text \<open>
  C6. Composite atomicity: where the three verification keys exist and the composite holds
  a member for each circuit, verifying the composite returns one result per circuit, and
  all results are true if and only if each member's (proof, publicSignals) pair verifies
  under its own circuit's key; a member that does not verify makes the whole report false.
\<close>
theorem composite_valid_iff_every_member:
  assumes "verification_key B ''compute_threshold'' = Some vk1"
    and "verification_key B ''evaluation_attestation'' = Some vk2"
    and "verification_key B ''policy_compliance'' = Some vk3"
    and "proofData composite ''compute_threshold'' = Some (s1, q1)"
    and "proofData composite ''evaluation_attestation'' = Some (s2, q2)"
    and "proofData composite ''policy_compliance'' = Some (s3, q3)"
  shows "\<exists>results. verifyCompositeProof E B composite = Inr results \<and>
           map fst results = circuits \<and>
           (allValid results \<longleftrightarrow>
              verify E B ''compute_threshold'' q1 s1 = Inr True \<and>
              verify E B ''evaluation_attestation'' q2 s2 = Inr True \<and>
              verify E B ''policy_compliance'' q3 s3 = Inr True)"
  using assms
  by (simp add: verifyCompositeProof_def circuits_def allValid_def verify_def)

theorem composite_valid_iff_every_member_witness:
  "verification_key echo_build ''compute_threshold'' = Some ''compute_threshold'' \<and>
   verification_key echo_build ''evaluation_attestation'' = Some ''evaluation_attestation'' \<and>
   verification_key echo_build ''policy_compliance'' = Some ''policy_compliance'' \<and>
   (\<exists>results.
      verifyCompositeProof echo_engine echo_build
        (compositeProof ''2026-01-10T00:00:00.000Z''
           \<lparr>compute = \<lparr>proof_obj = [''compute_threshold'', ''1'', ''7''], publicSignals = [''1'', ''7'']\<rparr>,
            evaluation = \<lparr>proof_obj = [''evaluation_attestation'', ''1'', ''5''], publicSignals = [''1'', ''5'']\<rparr>,
            policy = \<lparr>proof_obj = [''policy_compliance'', ''1'', ''8''], publicSignals = [''1'', ''8'']\<rparr>\<rparr>)
      = Inr results \<and> allValid results) \<and>
   (\<exists>results.
      verifyCompositeProof echo_engine echo_build
        (compositeProof ''2026-01-10T00:00:00.000Z''
           \<lparr>compute = \<lparr>proof_obj = [''compute_threshold'', ''1'', ''7''], publicSignals = [''1'', ''7'']\<rparr>,
            evaluation = \<lparr>proof_obj = [''evaluation_attestation'', ''1'', ''5''], publicSignals = [''1'', ''4'']\<rparr>,
            policy = \<lparr>proof_obj = [''policy_compliance'', ''1'', ''8''], publicSignals = [''1'', ''8'']\<rparr>\<rparr>)
      = Inr results \<and> \<not> allValid results)"
proof -
  define good :: "string list proofs" where "good =
    \<lparr>compute = \<lparr>proof_obj = [''compute_threshold'', ''1'', ''7''], publicSignals = [''1'', ''7'']\<rparr>,
     evaluation = \<lparr>proof_obj = [''evaluation_attestation'', ''1'', ''5''], publicSignals = [''1'', ''5'']\<rparr>,
     policy = \<lparr>proof_obj = [''policy_compliance'', ''1'', ''8''], publicSignals = [''1'', ''8'']\<rparr>\<rparr>"
  define bad :: "string list proofs" where "bad =
    \<lparr>compute = \<lparr>proof_obj = [''compute_threshold'', ''1'', ''7''], publicSignals = [''1'', ''7'']\<rparr>,
     evaluation = \<lparr>proof_obj = [''evaluation_attestation'', ''1'', ''5''], publicSignals = [''1'', ''4'']\<rparr>,
     policy = \<lparr>proof_obj = [''policy_compliance'', ''1'', ''8''], publicSignals = [''1'', ''8'']\<rparr>\<rparr>"
  note g = composite_valid_iff_every_member [OF echo_build_keys(4,5,6)
      proofData_compositeProof [of "''2026-01-10T00:00:00.000Z''" good], of echo_engine]
  note b = composite_valid_iff_every_member [OF echo_build_keys(4,5,6)
      proofData_compositeProof [of "''2026-01-10T00:00:00.000Z''" bad], of echo_engine]
  have vg: "verify echo_engine echo_build ''compute_threshold''
              (proof_obj (compute good)) (publicSignals (compute good)) = Inr True"
           "verify echo_engine echo_build ''evaluation_attestation''
              (proof_obj (evaluation good)) (publicSignals (evaluation good)) = Inr True"
           "verify echo_engine echo_build ''policy_compliance''
              (proof_obj (policy good)) (publicSignals (policy good)) = Inr True"
    by (simp_all add: good_def verify_def echo_build_keys echo_engine_def)
  have vb: "verify echo_engine echo_build ''evaluation_attestation''
              (proof_obj (evaluation bad)) (publicSignals (evaluation bad)) \<noteq> Inr True"
    by (simp add: bad_def verify_def echo_build_keys echo_engine_def)
  have "\<exists>results. verifyCompositeProof echo_engine echo_build
          (compositeProof ''2026-01-10T00:00:00.000Z'' good) = Inr results \<and> allValid results"
    using g vg by blast
  moreover have "\<exists>results. verifyCompositeProof echo_engine echo_build
          (compositeProof ''2026-01-10T00:00:00.000Z'' bad) = Inr results \<and> \<not> allValid results"
    using b vb by blast
  ultimately show ?thesis unfolding good_def bad_def using echo_build_keys(4,5,6) by blast
qed

text \<open>
  C8. Atomicity of failed generation: when the proving call fails, both persisting wrappers
  return the failure and leave every file as it was, so neither the proof file nor the
  public-signals file is written; and failure is the only rejection path, since a proving
  call that succeeds always carries the validity signal 1.
\<close>
theorem failed_generation_persists_nothing:
  "(fullProve E B p circuitName input = Inl e \<longrightarrow>
      generateProof E B p circuitName input fs = (Inl e, fs) \<and>
      fullProveAndPersist E B p circuitName input fs = (Inl e, fs)) \<and>
   (fullProve E B p circuitName input = Inr r \<longrightarrow> hd (publicSignals r) = ''1'')"
  using fullProve_valid [of E B p circuitName input r]
  by (simp add: generateProof_def fullProveAndPersist_def)

theorem failed_generation_persists_nothing_witness:
  "fullProve echo_engine echo_build bn128 ''compute_threshold''
     (ComputeThresholdInput (2 * 10 ^ 25) (10 ^ 25)) = Inl ConstraintUnsatisfiable \<and>
   generateProof echo_engine echo_build bn128 ''compute_threshold''
     (ComputeThresholdInput (2 * 10 ^ 25) (10 ^ 25))
     [''data'' \<mapsto> Dir, ''data/compute_threshold_proof.json'' \<mapsto> File (JProof [''earlier''])]
   = (Inl ConstraintUnsatisfiable,
      [''data'' \<mapsto> Dir, ''data/compute_threshold_proof.json'' \<mapsto> File (JProof [''earlier''])]) \<and>
   fullProveAndPersist echo_engine echo_build bn128 ''compute_threshold''
     (ComputeThresholdInput (2 * 10 ^ 25) (10 ^ 25))
     [''data'' \<mapsto> Dir, ''data/compute_threshold_proof.json'' \<mapsto> File (JProof [''earlier''])]
   = (Inl ConstraintUnsatisfiable,
      [''data'' \<mapsto> Dir, ''data/compute_threshold_proof.json'' \<mapsto> File (JProof [''earlier''])]) \<and>
   (\<exists>r. fullProve echo_engine echo_build bn128 ''compute_threshold''
          (ComputeThresholdInput (5 * 10 ^ 24) (10 ^ 25)) = Inr r \<and>
        hd (publicSignals r) = ''1'')"
proof -
  have b: "(2 * 10 ^ 25 :: nat) < 2 ^ 252" "(10 ^ 25 :: nat) < 2 ^ 252"
          "(5 * 10 ^ 24 :: nat) < 2 ^ 252" by simp_all
  have n: "\<not> (2 * 10 ^ 25 :: nat) < 10 ^ 25" and y: "(5 * 10 ^ 24 :: nat) < 10 ^ 25" by simp_all
  have f: "fullProve echo_engine echo_build bn128 ''compute_threshold''
             (ComputeThresholdInput (2 * 10 ^ 25) (10 ^ 25)) = Inl ConstraintUnsatisfiable"
    using calculateWitness_compute(2) [OF bn128_bounds(1) b(1,2) n]
    by (simp add: fullProve_def echo_build_keys)
  obtain w where "calculateWitness bn128 ''compute_threshold''
                    (ComputeThresholdInput (5 * 10 ^ 24) (10 ^ 25)) = Inr w"
    using calculateWitness_compute(1) [OF bn128_bounds(1) b(3,2) y] by blast
  then obtain r where g: "fullProve echo_engine echo_build bn128 ''compute_threshold''
                            (ComputeThresholdInput (5 * 10 ^ 24) (10 ^ 25)) = Inr r"
    by (simp add: fullProve_def echo_build_keys)
  note t1 = failed_generation_persists_nothing [of echo_engine echo_build bn128
      "''compute_threshold''" "ComputeThresholdInput (2 * 10 ^ 25) (10 ^ 25)"
      ConstraintUnsatisfiable
      "[''data'' \<mapsto> Dir, ''data/compute_threshold_proof.json'' \<mapsto> File (JProof [''earlier''])]"]
  note t2 = failed_generation_persists_nothing [of echo_engine echo_build bn128
      "''compute_threshold''" "ComputeThresholdInput (5 * 10 ^ 24) (10 ^ 25)" _ _ r]
  have "hd (publicSignals r) = ''1''" using t2 g by blast
  then have "\<exists>r. fullProve echo_engine echo_build bn128 ''compute_threshold''
          (ComputeThresholdInput (5 * 10 ^ 24) (10 ^ 25)) = Inr r \<and>
        hd (publicSignals r) = ''1''" using g by blast
  then show ?thesis using t1 f by blast
qed

text \<open>
  C9. Composite artifact schema. As worded, with \<open>submitter\<close>, \<open>framework\<close> and
  \<open>claims\<close> as top-level properties and \<open>publicInputVector\<close> and \<open>label\<close> in each
  entry, the schema does not describe what the bundler assembles. The artifact is
  \<open>{version, timestamp, proofs: {circuit -> {proof, publicSignals, claim}}, metadata:
  {submitter, framework, compositionMethod}}\<close>: submitter and framework sit under
  \<open>metadata\<close>, the map of members is \<open>proofs\<close>, keyed by the three circuit names, and each
  entry holds the proof, its public signals and a human-readable claim text; where
  \<open>data\<close> is absent or a directory, the same object is saved as
  data/composite_proof.json.
\<close>
theorem composite_artifact_layout:
  "keys (fst (composeProofs now ps fs)) = [''version'', ''timestamp'', ''proofs'', ''metadata''] \<and>
   field ''version'' (fst (composeProofs now ps fs)) = Some (JStr ''1.0'') \<and>
   field ''timestamp'' (fst (composeProofs now ps fs)) = Some (JStr now) \<and>
   field ''submitter'' (fst (composeProofs now ps fs)) = None \<and>
   field ''framework'' (fst (composeProofs now ps fs)) = None \<and>
   field ''claims'' (fst (composeProofs now ps fs)) = None \<and>
   map_option keys (field ''metadata'' (fst (composeProofs now ps fs)))
     = Some [''submitter'', ''framework'', ''compositionMethod''] \<and>
   Option.bind (field ''metadata'' (fst (composeProofs now ps fs))) (field ''submitter'')
     = Some (JStr ''AI Lab Example Inc.'') \<and>
   Option.bind (field ''metadata'' (fst (composeProofs now ps fs))) (field ''framework'')
     = Some (JStr ''EU AI Act + RSP'') \<and>
   map_option keys (field ''proofs'' (fst (composeProofs now ps fs))) = Some circuits \<and>
   map (\<lambda>c. map_option keys
               (Option.bind (field ''proofs'' (fst (composeProofs now ps fs))) (field c)))
     circuits
     = [Some [''proof'', ''publicSignals'', ''claim''],
        Some [''proof'', ''publicSignals'', ''claim''],
        Some [''proof'', ''publicSignals'', ''claim'']] \<and>
   map (\<lambda>c. Option.bind
               (Option.bind (field ''proofs'' (fst (composeProofs now ps fs))) (field c))
               (field ''claim''))
     circuits
     = [Some (JStr ''Training compute below regulatory threshold''),
        Some (JStr ''All required safety evaluations completed''),
        Some (JStr ''Responsible Scaling Policy requirements met'')] \<and>
   map (proofData (fst (composeProofs now ps fs))) circuits
     = [Some (publicSignals (compute ps), proof_obj (compute ps)),
        Some (publicSignals (evaluation ps), proof_obj (evaluation ps)),
        Some (publicSignals (policy ps), proof_obj (policy ps))] \<and>
   (fs ''data'' = None \<or> fs ''data'' = Some Dir \<longrightarrow>
      snd (composeProofs now ps fs) ''data/composite_proof.json''
        = Some (File (fst (composeProofs now ps fs))))"
  by (simp add: composeProofs_def proofData_compositeProof circuits_def writeFileSync_def)
     (simp add: compositeProof_def member_json_def)

theorem composite_artifact_layout_witness:
  "(Map.empty :: string list files) ''data'' = None \<and>
   keys (fst (composeProofs ''2026-01-10T00:00:00.000Z''
                \<lparr>compute = \<lparr>proof_obj = [''a''], publicSignals = [''1'', ''7'']\<rparr>,
                 evaluation = \<lparr>proof_obj = [''b''], publicSignals = [''1'', ''5'']\<rparr>,
                 policy = \<lparr>proof_obj = [''c''], publicSignals = [''1'', ''8'']\<rparr>\<rparr>
                Map.empty))
     = [''version'', ''timestamp'', ''proofs'', ''metadata''] \<and>
   snd (composeProofs ''2026-01-10T00:00:00.000Z''
          \<lparr>compute = \<lparr>proof_obj = [''a''], publicSignals = [''1'', ''7'']\<rparr>,
           evaluation = \<lparr>proof_obj = [''b''], publicSignals = [''1'', ''5'']\<rparr>,
           policy = \<lparr>proof_obj = [''c''], publicSignals = [''1'', ''8'']\<rparr>\<rparr>
          Map.empty) ''data/composite_proof.json''
     = Some (File (fst (composeProofs ''2026-01-10T00:00:00.000Z''
          \<lparr>compute = \<lparr>proof_obj = [''a''], publicSignals = [''1'', ''7'']\<rparr>,
           evaluation = \<lparr>proof_obj = [''b''], publicSignals = [''1'', ''5'']\<rparr>,
           policy = \<lparr>proof_obj = [''c''], publicSignals = [''1'', ''8'']\<rparr>\<rparr>
          Map.empty)))"
proof -
  have e: "(Map.empty :: string list files) ''data'' = None" by simp
  show ?thesis
    using composite_artifact_layout [of "''2026-01-10T00:00:00.000Z''"
        "\<lparr>compute = \<lparr>proof_obj = [''a''], publicSignals = [''1'', ''7'']\<rparr>,
          evaluation = \<lparr>proof_obj = [''b''], publicSignals = [''1'', ''5'']\<rparr>,
          policy = \<lparr>proof_obj = [''c''], publicSignals = [''1'', ''8'']\<rparr>\<rparr>"
        "Map.empty :: string list files"] e
    by blast
qed

theorem composite_schema_counterexample:
  "\<not> spec_composite_schema
       (fst (composeProofs ''2026-01-10T00:00:00.000Z''
               \<lparr>compute = \<lparr>proof_obj = [''a''], publicSignals = [''1'', ''7'']\<rparr>,
                evaluation = \<lparr>proof_obj = [''b''], publicSignals = [''1'', ''5'']\<rparr>,
                policy = \<lparr>proof_obj = [''c''], publicSignals = [''1'', ''8'']\<rparr>\<rparr>
               Map.empty))"
proof
  define ps :: "string list proofs" where "ps =
    \<lparr>compute = \<lparr>proof_obj = [''a''], publicSignals = [''1'', ''7'']\<rparr>,
     evaluation = \<lparr>proof_obj = [''b''], publicSignals = [''1'', ''5'']\<rparr>,
     policy = \<lparr>proof_obj = [''c''], publicSignals = [''1'', ''8'']\<rparr>\<rparr>"
  assume "spec_composite_schema
       (fst (composeProofs ''2026-01-10T00:00:00.000Z''
               \<lparr>compute = \<lparr>proof_obj = [''a''], publicSignals = [''1'', ''7'']\<rparr>,
                evaluation = \<lparr>proof_obj = [''b''], publicSignals = [''1'', ''5'']\<rparr>,
                policy = \<lparr>proof_obj = [''c''], publicSignals = [''1'', ''8'']\<rparr>\<rparr>
               Map.empty))"
  then have "spec_composite_schema (compositeProof ''2026-01-10T00:00:00.000Z'' ps)"
    by (simp add: composeProofs_def ps_def)
  then have "set (keys (compositeProof ''2026-01-10T00:00:00.000Z'' ps))
             = {''version'', ''timestamp'', ''submitter'', ''framework'', ''claims''}"
    by (simp add: spec_composite_schema_def)
  then have "''submitter'' \<in> set (keys (compositeProof ''2026-01-10T00:00:00.000Z'' ps))"
    by blast
  then show False by (simp add: keys_compositeProof)
qed

text \<open>
  C1. Soundness of generation, evaluated where it breaks: the private input \<open>p - 1\<close> of the
  bn128 field is not below the threshold \<open>10 ^ 25\<close>, yet the witness calculator of the
  compute circuit accepts it and proof generation returns a proof with public signals
  \<open>["1", "10000000000000000000000000"]\<close> instead of failing.
\<close>
theorem soundness_breaks_at_minus_one:
  "\<not> bn128 - 1 < 10 ^ 25 \<and>
   (\<exists>w. calculateWitness bn128 ''compute_threshold''
           (ComputeThresholdInput (bn128 - 1) (10 ^ 25)) = Inr w \<and>
        public_signals w = [1, 10 ^ 25]) \<and>
   (\<exists>r. fullProve echo_engine echo_build bn128 ''compute_threshold''
           (ComputeThresholdInput (bn128 - 1) (10 ^ 25)) = Inr r \<and>
        publicSignals r = [''1'', ''10000000000000000000000000''])"
proof -
  have a: "\<not> bn128 - 1 < 10 ^ 25" by (simp add: bn128_def)
  have b: "\<exists>w. calculateWitness bn128 ''compute_threshold''
           (ComputeThresholdInput (bn128 - 1) (10 ^ 25)) = Inr w \<and>
        public_signals w = [1, 10 ^ 25]"
    using minus_one_witness_calc by simp
  have c: "\<exists>r. fullProve echo_engine echo_build bn128 ''compute_threshold''
           (ComputeThresholdInput (bn128 - 1) (10 ^ 25)) = Inr r \<and>
        publicSignals r = [''1'', ''10000000000000000000000000'']"
    using minus_one_witness_calc dec_threshold
    by (simp add: fullProve_def echo_build_keys dec_1)
  show ?thesis using a b c by blast
qed

end
